theory Spec2Isabelle
  imports Main "HOL-Library.Sublist" "HOL-Library.AList"
begin

text \<open>
  The repository holds two editor extensions that open files changed by a coding agent:
  \<^emph>\<open>Open Changed Files\<close> (\<open>extension.js\<close>), with a debounce ledger and a batch check, and
  \<^emph>\<open>Cursor Auto-Open\<close> (\<open>src/extension.ts\<close>), with a debounce ledger and a cooldown while a
  package manager runs. Both are embedded here as functions on an explicit state; an
  \<open>async\<close> handler is cut at its \<open>await\<close>s into the parts that run without interruption,
  and the state of the editor and the disk is an argument of each part.
\<close>

section \<open>Strings and paths\<close>

text \<open>
  Both variants of the extension classify a path with JavaScript string operations and
  Node's \<open>path\<close> module. Strings are byte lists (UTF-8). The \<open>path\<close> functions are the
  POSIX ones (\<open>path.sep = '/'\<close>).

  \<open>String.prototype.toLowerCase\<close> belongs to the JavaScript runtime, not to the
  repository, and follows the Unicode case tables: it is a parameter \<open>toLowerCase\<close> of
  every function that calls it, directly or not, and the general properties below hold
  for every such function. On a string of ASCII bytes it is \<open>asciiLower\<close>, which maps
  \<open>A\<close> to \<open>Z\<close> to \<open>a\<close> to \<open>z\<close>; the concrete scenarios, whose paths are ASCII, use that.
\<close>

definition lowerChar :: "char \<Rightarrow> char" where
  "lowerChar c =
     (let n = (of_char c :: nat) in if 65 \<le> n \<and> n \<le> 90 then char_of (n + 32) else c)"

definition asciiLower :: "string \<Rightarrow> string" where
  "asciiLower s = map lowerChar s"

text \<open>\<open>s.split(sep)\<close> for a one-character separator: \<open>''''.split(sep) = ['''']\<close>.\<close>

fun split_sep :: "char \<Rightarrow> string \<Rightarrow> string list" where
  "split_sep sep [] = [[]]"
| "split_sep sep (c # cs) =
     (if c = sep then [] # split_sep sep cs
      else (case split_sep sep cs of
              [] \<Rightarrow> [[c]]
            | part # parts \<Rightarrow> (c # part) # parts))"

definition path_sep :: char where
  "path_sep = CHR ''/''"

text \<open>
  \<open>path.basename(p)\<close>: trailing separators are dropped, then the text after the last
  separator is returned.
\<close>

definition basename :: "string \<Rightarrow> string" where
  "basename p =
     (let trimmed = dropWhile (\<lambda>c. c = path_sep) (rev p)
      in rev (takeWhile (\<lambda>c. c \<noteq> path_sep) trimmed))"

text \<open>
  \<open>path.extname(p)\<close>: from the last dot of the base name to its end; empty when the base
  name has no dot, when its only dot is its first character, and for \<open>..\<close>.
\<close>

definition extname :: "string \<Rightarrow> string" where
  "extname p =
     (let b = basename p;
          after = rev (takeWhile (\<lambda>c. c \<noteq> CHR ''.'') (rev b))
      in if CHR ''.'' \<notin> set b then []
         else if Suc (length after) = length b then []
         else if b = ''..'' then []
         else CHR ''.'' # after)"

text \<open>\<open>s.includes(t)\<close>, \<open>s.startsWith(t)\<close> and a regular expression \<open>/\\.ext$/\<close>.\<close>

definition str_includes :: "string \<Rightarrow> string \<Rightarrow> bool" where
  "str_includes s t = sublist t s"

definition startsWith :: "string \<Rightarrow> string \<Rightarrow> bool" where
  "startsWith s t = prefix t s"

definition endsWith :: "string \<Rightarrow> string \<Rightarrow> bool" where
  "endsWith s t = suffix t s"

section \<open>Open Changed Files (extension.js)\<close>

subsection \<open>Path filter\<close>

definition IGNORED_DIRS :: "string list" where
  "IGNORED_DIRS =
     [''node_modules'', ''vendor'', ''.git'', ''.svn'', ''.hg'',
      ''.cursor'', ''.vscode'', ''build'', ''dist'', ''out'',
      ''.next'', ''.nuxt'', ''.cache'', ''coverage'', ''.nyc_output'']"

definition ALLOWED_EXTS :: "string list" where
  "ALLOWED_EXTS =
     [''.js'', ''.jsx'', ''.ts'', ''.tsx'',
      ''.mjs'', ''.cjs'', ''.cts'', ''.mts'',
      ''.php'', ''.phtml'', ''.py'', ''.rb'', ''.go'', ''.java'', ''.cs'', ''.kt'', ''.kts'', ''.rs'',
      ''.cpp'', ''.cxx'', ''.cc'', ''.c'', ''.h'', ''.hpp'', ''.hh'',
      ''.vue'', ''.svelte'', ''.astro'', ''.mdx'',
      ''.html'', ''.htm'', ''.css'', ''.scss'', ''.sass'', ''.less'',
      ''.json'', ''.yml'', ''.yaml'', ''.xml'', ''.md'', ''.sql'', ''.sh'', ''.ps1'', ''.bat'']"

definition CHECK_CACHE_TTL :: int where
  "CHECK_CACHE_TTL = 1000"

definition BATCH_DETECTION_WINDOW :: int where
  "BATCH_DETECTION_WINDOW = 500"

definition shouldIgnorePath :: "(string \<Rightarrow> string) \<Rightarrow> string \<Rightarrow> bool" where
  "shouldIgnorePath toLowerCase fsPath =
     list_ex (\<lambda>segment. toLowerCase segment \<in> set IGNORED_DIRS) (split_sep path_sep fsPath)"

definition shouldOpenFile :: "(string \<Rightarrow> string) \<Rightarrow> string \<Rightarrow> bool" where
  "shouldOpenFile toLowerCase fsPath =
     (if shouldIgnorePath toLowerCase fsPath then False
      else if toLowerCase (extname fsPath) \<in> set ALLOWED_EXTS then True
      else False)"

subsection \<open>State, host and the change handler\<close>

text \<open>
  The two \<open>Map\<close>s of \<open>activate\<close> are association lists in insertion order:
  \<open>Map.set\<close> is \<open>AList.update\<close> (an existing key keeps its place, a new one is appended),
  \<open>Map.get\<close> is \<open>map_of\<close>. Times are \<open>Date.now()\<close> readings in milliseconds.
\<close>

record js_state =
  recentChecks :: "(string \<times> int) list"
  recentFileChanges :: "(string \<times> int) list"

definition js_init :: js_state where
  "js_init = \<lparr>recentChecks = [], recentFileChanges = []\<rparr>"

text \<open>
  What the handler reads from the editor and the disk: the \<open>fsPath\<close> of every visible
  editor's document, the result of \<open>fs.statSync\<close> (the size in bytes, \<open>None\<close> when it
  throws), and whether \<open>openTextDocument\<close> succeeds.
\<close>

record js_host =
  openEditors :: "string list"
  statSync :: "string \<Rightarrow> int option"
  openTextDocumentOk :: "string \<Rightarrow> bool"

datatype js_action = OpenTextDocument string | ShowTextDocument string

datatype js_verdict = Skipping | DuplicateCheck | OpenByUser | Waiting

definition isFileOpenByUser :: "js_host \<Rightarrow> string \<Rightarrow> bool" where
  "isFileOpenByUser h fsPath = list_ex (\<lambda>editor. editor = fsPath) (openEditors h)"

definition isLikelyBatchOperation :: "int \<Rightarrow> js_state \<Rightarrow> bool" where
  "isLikelyBatchOperation now s =
     (let recentChanges =
            filter (\<lambda>timestamp. now - timestamp < BATCH_DETECTION_WINDOW)
              (map snd (recentFileChanges s))
      in length recentChanges \<ge> 3)"

text \<open>
  \<open>handleFileChange\<close> up to its \<open>await\<close>: the part that runs when the event arrives, at
  time \<open>now\<close>. \<open>lastCheck && \<dots>\<close> is false for a missing entry and for a stored \<open>0\<close>.
  The verdict \<open>Waiting\<close> means the handler is suspended for the batch window; every other
  verdict is a \<open>return\<close>.
\<close>

definition cleanOld :: "int \<Rightarrow> (string \<times> int) list \<Rightarrow> (string \<times> int) list" where
  "cleanOld cutoff m = filter (\<lambda>(key, val). \<not> val < cutoff) m"

definition handleFileChange_arrive ::
  "(string \<Rightarrow> string) \<Rightarrow> bool \<Rightarrow> js_host \<Rightarrow> string \<Rightarrow> int \<Rightarrow> js_state \<Rightarrow> js_state \<times> js_verdict" where
  "handleFileChange_arrive toLowerCase autoOpen h fsPath now s =
     (if \<not> autoOpen \<or> \<not> shouldOpenFile toLowerCase fsPath then (s, Skipping)
      else if (case map_of (recentChecks s) fsPath of
                 None \<Rightarrow> False
               | Some lastCheck \<Rightarrow> lastCheck \<noteq> 0 \<and> now - lastCheck < CHECK_CACHE_TTL)
      then (s, DuplicateCheck)
      else
        let s1 = s\<lparr>recentChecks := AList.update fsPath now (recentChecks s)\<rparr>;
            s2 = s1\<lparr>recentFileChanges := AList.update fsPath now (recentFileChanges s1)\<rparr>;
            s3 = (if length (recentChecks s2) > 100
                  then s2\<lparr>recentChecks := cleanOld (now - CHECK_CACHE_TTL * 10) (recentChecks s2)\<rparr>
                  else s2);
            s4 = (if length (recentFileChanges s3) > 50
                  then s3\<lparr>recentFileChanges :=
                           cleanOld (now - BATCH_DETECTION_WINDOW * 2) (recentFileChanges s3)\<rparr>
                  else s3)
        in if isFileOpenByUser h fsPath then (s4, OpenByUser) else (s4, Waiting))"

text \<open>
  The rest of \<open>handleFileChange\<close>, run when the timer of the \<open>await\<close> has fired, at time
  \<open>now\<close> and on the state as it is by then. It only reads the state; the result is the
  list of editor calls made. A file is over the limit when \<open>size / (1024 * 1024) > 50\<close>.
\<close>

definition handleFileChange_resume ::
  "js_host \<Rightarrow> string \<Rightarrow> int \<Rightarrow> js_state \<Rightarrow> js_action list" where
  "handleFileChange_resume h fsPath now s =
     (if isLikelyBatchOperation now s then []
      else (case statSync h fsPath of
              None \<Rightarrow> []
            | Some bytes \<Rightarrow>
                if bytes > 50 * (1024 * 1024) then []
                else if openTextDocumentOk h fsPath
                  then [OpenTextDocument fsPath, ShowTextDocument fsPath]
                  else [OpenTextDocument fsPath]))"

text \<open>A run of arrivals: each event carries its path, its time and the host as it is then.\<close>

fun js_arrivals ::
  "(string \<Rightarrow> string) \<Rightarrow> bool \<Rightarrow> (js_host \<times> string \<times> int) list \<Rightarrow> js_state \<Rightarrow> js_state" where
  "js_arrivals toLowerCase autoOpen [] s = s"
| "js_arrivals toLowerCase autoOpen ((h, fsPath, now) # evs) s =
     js_arrivals toLowerCase autoOpen evs (fst (handleFileChange_arrive toLowerCase autoOpen h fsPath now s))"

section \<open>Cursor Auto-Open (src/extension.ts)\<close>

subsection \<open>Path filter\<close>

definition ALLOWED_EXTENSIONS :: "string list" where
  "ALLOWED_EXTENSIONS =
     [''.php'', ''.ts'', ''.js'', ''.jsx'', ''.tsx'', ''.vue'',
      ''.py'', ''.rb'', ''.go'', ''.cs'', ''.rs'', ''.c'', ''.cpp'',
      ''.css'', ''.json'',
      ''.md'', ''.mdx'', ''.mdc'']"

text \<open>
  The regular expressions of \<open>DISALLOWED_PATTERNS\<close>, each as the test it performs on a
  file name: \<open>/^yarn\\.lock$/\<close> is equality, \<open>/\\.env$/\<close> is a suffix test.
\<close>

definition DISALLOWED_PATTERNS :: "(string \<Rightarrow> bool) list" where
  "DISALLOWED_PATTERNS =
     [(\<lambda>fileName. fileName = ''yarn.lock''),
      (\<lambda>fileName. fileName = ''package-lock.json''),
      (\<lambda>fileName. endsWith fileName ''.env''),
      (\<lambda>fileName. endsWith fileName ''.lock''),
      (\<lambda>fileName. endsWith fileName ''.log''),
      (\<lambda>fileName. endsWith fileName ''.sql''),
      (\<lambda>fileName. endsWith fileName ''.txt'')]"

definition EXCLUDED_DIRS :: "string list" where
  "EXCLUDED_DIRS =
     [''vendor'', ''node_modules'', ''.git'', ''build'', ''dist'', ''cache'', ''.cache'',
      ''storage'', ''bootstrap'']"

definition backslash :: char where
  "backslash = CHR 0x5C"

record uri =
  fsPath :: string
  scheme :: string

text \<open>
  What the handlers read from the editor and the disk at one moment:
  \<open>vscode.workspace.asRelativePath\<close>, whether \<open>fs.promises.access\<close> resolves, the size
  reported by \<open>fs.promises.stat\<close> (\<open>None\<close> when it rejects), the documents in memory
  and the documents of the visible editors.
\<close>

record host =
  asRelativePath :: "uri \<Rightarrow> string"
  access :: "string \<Rightarrow> bool"
  stat :: "string \<Rightarrow> int option"
  textDocuments :: "uri list"
  visibleTextEditors :: "uri list"

definition inExcludedDir :: "(string \<Rightarrow> string) \<Rightarrow> string \<Rightarrow> bool" where
  "inExcludedDir toLowerCase relativePath =
     list_ex (\<lambda>part. toLowerCase part \<in> set EXCLUDED_DIRS) (split_sep path_sep relativePath)"

definition matchesDisallowed :: "string \<Rightarrow> bool" where
  "matchesDisallowed fileName = list_ex (\<lambda>pattern. pattern fileName) DISALLOWED_PATTERNS"

definition shouldAutoOpen :: "(string \<Rightarrow> string) \<Rightarrow> host \<Rightarrow> uri \<Rightarrow> bool" where
  "shouldAutoOpen toLowerCase h u =
     (let filePath = fsPath u;
          relativePath = asRelativePath h u
      in if str_includes relativePath ''storage/framework/views'' \<or>
            str_includes relativePath (''storage'' @ [backslash] @ ''framework'' @ [backslash] @ ''views'')
         then False
         else if startsWith relativePath ''storage/'' \<or>
                 startsWith relativePath (''storage'' @ [backslash])
         then False
         else if inExcludedDir toLowerCase relativePath then False
         else
           let fileName = basename filePath
           in if matchesDisallowed fileName then False
              else if toLowerCase (extname filePath) \<notin> set ALLOWED_EXTENSIONS then False
              else if fileName = ''yarn.lock'' \<or> fileName = ''package-lock.json'' then False
              else True)"

subsection \<open>State\<close>

text \<open>
  The module variables and the two sets of \<open>activate\<close>. \<open>timers\<close> is the host's table of
  pending cooldown timeouts (handle and due time) and \<open>nextTimer\<close> the next fresh handle;
  \<open>packageManagerCooldown\<close> holds the handle returned by the last \<open>setTimeout\<close> and keeps
  it after the timeout has fired, when \<open>clearTimeout\<close> on it does nothing.
\<close>

record ts_state =
  openedFiles :: "string set"
  lastCheckedFiles :: "(string \<times> int) list"
  documentModificationTimes :: "(string \<times> int) list"
  autoOpenedFiles :: "string set"
  isPackageManagerRunning :: bool
  packageManagerCooldown :: "nat option"
  activityStartTime :: int
  openedDocuments :: "string set"
  timers :: "(nat \<times> int) list"
  nextTimer :: nat

definition ts_init :: ts_state where
  "ts_init =
     \<lparr>openedFiles = {}, lastCheckedFiles = [], documentModificationTimes = [],
      autoOpenedFiles = {}, isPackageManagerRunning = False, packageManagerCooldown = None,
      activityStartTime = 0, openedDocuments = {}, timers = [], nextTimer = 0\<rparr>"

subsection \<open>Package manager activity\<close>

definition clearTimeout :: "nat \<Rightarrow> ts_state \<Rightarrow> ts_state" where
  "clearTimeout handle s = s\<lparr>timers := filter (\<lambda>(i, due). i \<noteq> handle) (timers s)\<rparr>"

definition setTimeout :: "int \<Rightarrow> ts_state \<Rightarrow> nat \<times> ts_state" where
  "setTimeout due s =
     (nextTimer s, s\<lparr>timers := timers s @ [(nextTimer s, due)], nextTimer := Suc (nextTimer s)\<rparr>)"

definition handlePackageManagerActivity :: "int \<Rightarrow> ts_state \<Rightarrow> ts_state" where
  "handlePackageManagerActivity now s =
     (let s1 = (if \<not> isPackageManagerRunning s
                then s\<lparr>isPackageManagerRunning := True, activityStartTime := now\<rparr>
                else s);
          s2 = (case packageManagerCooldown s1 of
                  None \<Rightarrow> s1
                | Some handle \<Rightarrow> clearTimeout handle s1);
          (handle, s3) = setTimeout (now + 30000) s2
      in s3\<lparr>packageManagerCooldown := Some handle\<rparr>)"

text \<open>
  The host runs the callback of the timeout \<open>handle\<close> at time \<open>now\<close>: only if that
  timeout is still pending and due. The callback clears \<open>isPackageManagerRunning\<close>.
\<close>

definition timerFired :: "nat \<Rightarrow> int \<Rightarrow> ts_state \<Rightarrow> ts_state" where
  "timerFired handle now s =
     (case map_of (timers s) handle of
        None \<Rightarrow> s
      | Some due \<Rightarrow>
          if due \<le> now
          then (clearTimeout handle s)\<lparr>isPackageManagerRunning := False\<rparr>
          else s)"

subsection \<open>Event handlers\<close>

text \<open>
  Each handler is modelled up to its first \<open>await\<close>. The verdict names the branch taken:
  the four skips are the \<open>return\<close>s, and \<open>CallOpenFile d\<close> means that the handler goes on
  to call \<open>openFile\<close> after a delay of \<open>d\<close> milliseconds.
\<close>

datatype ts_verdict =
    SkipPackageManager
  | SkipStorage
  | SkipCriteria
  | SkipDebounced
  | SkipVisibleOrAutoOpened
  | CallOpenFile nat

definition onDidCreate ::
  "(string \<Rightarrow> string) \<Rightarrow> host \<Rightarrow> uri \<Rightarrow> ts_state \<Rightarrow> ts_state \<times> ts_verdict" where
  "onDidCreate toLowerCase h u s =
     (if isPackageManagerRunning s then (s, SkipPackageManager)
      else if shouldAutoOpen toLowerCase h u then (s, CallOpenFile 0)
      else (s, SkipCriteria))"

definition onDidChange ::
  "(string \<Rightarrow> string) \<Rightarrow> host \<Rightarrow> uri \<Rightarrow> int \<Rightarrow> ts_state \<Rightarrow> ts_state \<times> ts_verdict" where
  "onDidChange toLowerCase h u now s =
     (let relativePath = asRelativePath h u
      in if isPackageManagerRunning s then (s, SkipPackageManager)
         else if str_includes relativePath ''storage/'' \<or>
                 str_includes relativePath (''storage'' @ [backslash])
         then (s, SkipStorage)
         else if shouldAutoOpen toLowerCase h u then
           let filePath = fsPath u;
               lastChecked = (case map_of (lastCheckedFiles s) filePath of
                                None \<Rightarrow> 0
                              | Some checked \<Rightarrow> checked)
           in if now - lastChecked < 2000 then (s, SkipDebounced)
              else (s\<lparr>lastCheckedFiles := AList.update filePath now (lastCheckedFiles s)\<rparr>,
                    CallOpenFile 200)
         else (s, SkipCriteria))"

definition onDidOpenTextDocument :: "uri \<Rightarrow> int \<Rightarrow> ts_state \<Rightarrow> ts_state" where
  "onDidOpenTextDocument u now s =
     (if scheme u = ''file''
      then s\<lparr>openedDocuments := insert (fsPath u) (openedDocuments s),
             documentModificationTimes :=
               AList.update (fsPath u) now (documentModificationTimes s)\<rparr>
      else s)"

definition isVisible :: "host \<Rightarrow> string \<Rightarrow> bool" where
  "isVisible h filePath = list_ex (\<lambda>editor. fsPath editor = filePath) (visibleTextEditors h)"

definition onDidChangeTextDocument ::
  "(string \<Rightarrow> string) \<Rightarrow> host \<Rightarrow> uri \<Rightarrow> int \<Rightarrow> ts_state \<Rightarrow> ts_state \<times> ts_verdict" where
  "onDidChangeTextDocument toLowerCase h u now s =
     (if isPackageManagerRunning s then (s, SkipPackageManager)
      else if scheme u = ''file'' \<and> shouldAutoOpen toLowerCase h u then
        let filePath = fsPath u
        in if \<not> isVisible h filePath \<and> filePath \<notin> autoOpenedFiles s
           then (s\<lparr>documentModificationTimes :=
                      AList.update filePath now (documentModificationTimes s)\<rparr>,
                 CallOpenFile 100)
           else (s, SkipVisibleOrAutoOpened)
      else (s, SkipCriteria))"

definition onDidSaveTextDocument ::
  "(string \<Rightarrow> string) \<Rightarrow> host \<Rightarrow> uri \<Rightarrow> int \<Rightarrow> ts_state \<Rightarrow> ts_state \<times> ts_verdict" where
  "onDidSaveTextDocument toLowerCase h u now s =
     (if isPackageManagerRunning s then (s, SkipPackageManager)
      else if scheme u = ''file'' \<and> shouldAutoOpen toLowerCase h u then
        let filePath = fsPath u;
            s1 = s\<lparr>documentModificationTimes :=
                     AList.update filePath now (documentModificationTimes s)\<rparr>
        in if \<not> isVisible h filePath \<and> filePath \<notin> autoOpenedFiles s1
           then (s1, CallOpenFile 100)
           else (s1, SkipVisibleOrAutoOpened)
      else (s, SkipCriteria))"

definition onDidChangeActiveTextEditor :: "uri option \<Rightarrow> ts_state \<Rightarrow> ts_state" where
  "onDidChangeActiveTextEditor editor s =
     (case editor of
        None \<Rightarrow> s
      | Some u \<Rightarrow> s\<lparr>openedFiles := insert (fsPath u) (openedFiles s)\<rparr>)"

definition onDidCloseTextDocument :: "uri \<Rightarrow> ts_state \<Rightarrow> ts_state" where
  "onDidCloseTextDocument u s = s\<lparr>openedFiles := openedFiles s - {fsPath u}\<rparr>"

definition deactivate :: "ts_state \<Rightarrow> ts_state" where
  "deactivate s = s\<lparr>openedFiles := {}, autoOpenedFiles := {}\<rparr>"

subsection \<open>Opening a file\<close>

text \<open>
  The editor calls \<open>openFile\<close> can make, and how the host answers each of them:
  \<open>None\<close> when the call resolves, \<open>Some message\<close> when it rejects with that error message.
\<close>

datatype ts_action =
    ShowTextDocumentDoc uri
  | ExecuteVscodeOpen uri
  | ShowTextDocumentUri uri
  | OpenTextDocumentUri uri

record responses =
  showInMemory :: "string option"
  openCommand :: "string option"
  showUri :: "string option"
  showUriRetry :: "string option"
  openDocument :: "string option"
  showDocument :: "string option"

text \<open>
  \<open>openFile\<close> up to the 300 ms delay: the file must exist and be at most 50 MB
  (\<open>size / (1024 * 1024) > 50\<close> skips it; a failing \<open>stat\<close> does not); then the first
  document in memory with the same \<open>fsPath\<close> and scheme \<open>file\<close> decides. \<open>NotOpenYet\<close>
  means that no such document was found and the function goes on, after the delay, with
  \<open>openFile_ladder\<close>.
\<close>

datatype open_result =
    FileMissing
  | FileTooLarge
  | AlreadyVisible
  | ShownFromMemory "ts_action list"
  | NotOpenYet

definition markOpened :: "string \<Rightarrow> ts_state \<Rightarrow> ts_state" where
  "markOpened filePath s =
     s\<lparr>openedFiles := insert filePath (openedFiles s),
       autoOpenedFiles := insert filePath (autoOpenedFiles s)\<rparr>"

definition openFile :: "host \<Rightarrow> responses \<Rightarrow> uri \<Rightarrow> ts_state \<Rightarrow> ts_state \<times> open_result" where
  "openFile h r u s =
     (let filePath = fsPath u
      in if \<not> access h filePath then (s, FileMissing)
         else if (case stat h filePath of
                    None \<Rightarrow> False
                  | Some bytes \<Rightarrow> bytes > 50 * (1024 * 1024))
         then (s, FileTooLarge)
         else
           (case find (\<lambda>doc. fsPath doc = filePath \<and> scheme doc = ''file'') (textDocuments h) of
              None \<Rightarrow> (s, NotOpenYet)
            | Some doc \<Rightarrow>
                if isVisible h filePath then (markOpened filePath s, AlreadyVisible)
                else
                  (markOpened filePath s,
                   ShownFromMemory
                     (case showInMemory r of
                        None \<Rightarrow> [ShowTextDocumentDoc doc]
                      | Some err \<Rightarrow> [ShowTextDocumentDoc doc, ExecuteVscodeOpen doc]))))"

text \<open>
  The rest of \<open>openFile\<close>: the \<open>vscode.open\<close> command, then \<open>showTextDocument\<close> on the
  URI, retried once when the message mentions \<open>50MB\<close> or \<open>synchronized\<close>, then
  \<open>openTextDocument\<close> followed by \<open>showTextDocument\<close>. The path is recorded in both sets
  only when one of them succeeds. The result lists the calls made, in order.
\<close>

definition openFile_ladder :: "responses \<Rightarrow> uri \<Rightarrow> ts_state \<Rightarrow> ts_state \<times> ts_action list" where
  "openFile_ladder r u s =
     (let filePath = fsPath u
      in case openCommand r of
           None \<Rightarrow> (markOpened filePath s, [ExecuteVscodeOpen u])
         | Some error1 \<Rightarrow>
             (case showUri r of
                None \<Rightarrow> (markOpened filePath s, [ExecuteVscodeOpen u, ShowTextDocumentUri u])
              | Some errorMessage \<Rightarrow>
                  let retried = (str_includes errorMessage ''50MB'' \<or>
                                 str_includes errorMessage ''synchronized'');
                      tried = [ExecuteVscodeOpen u, ShowTextDocumentUri u] @
                              (if retried then [ShowTextDocumentUri u] else [])
                  in if retried \<and> showUriRetry r = None then (markOpened filePath s, tried)
                     else
                       (case openDocument r of
                          Some error4 \<Rightarrow> (s, tried @ [OpenTextDocumentUri u])
                        | None \<Rightarrow>
                            (case showDocument r of
                               Some error4 \<Rightarrow>
                                 (s, tried @ [OpenTextDocumentUri u, ShowTextDocumentDoc u])
                             | None \<Rightarrow>
                                 (markOpened filePath s,
                                  tried @ [OpenTextDocumentUri u, ShowTextDocumentDoc u])))))"

text \<open>The editor calls made by the first part of \<open>openFile\<close>.\<close>

fun actions_of :: "open_result \<Rightarrow> ts_action list" where
  "actions_of (ShownFromMemory acts) = acts"
| "actions_of FileMissing = []"
| "actions_of FileTooLarge = []"
| "actions_of AlreadyVisible = []"
| "actions_of NotOpenYet = []"

subsection \<open>A session\<close>

text \<open>
  Everything that can run between two suspension points, as one event: the callbacks the
  host delivers, the cooldown timeout, the two parts of \<open>openFile\<close> (which resume at a time
  the host chooses) and \<open>deactivate\<close>. A session is a list of such events; the
  interleaving of suspended handlers is the order of the list.
\<close>

datatype ts_event =
    FileCreated host uri
  | FileChanged host uri int
  | DocumentOpened uri int
  | DocumentChanged host uri int
  | DocumentSaved host uri int
  | ActiveEditorChanged "uri option"
  | DocumentClosed uri
  | PackageManagerActivity int
  | TimerFired nat int
  | OpenFileCalled host responses uri
  | OpenFileResumed responses uri
  | Deactivate

fun ts_step :: "(string \<Rightarrow> string) \<Rightarrow> ts_event \<Rightarrow> ts_state \<Rightarrow> ts_state" where
  "ts_step toLowerCase (FileCreated h u) s = fst (onDidCreate toLowerCase h u s)"
| "ts_step toLowerCase (FileChanged h u now) s = fst (onDidChange toLowerCase h u now s)"
| "ts_step toLowerCase (DocumentOpened u now) s = onDidOpenTextDocument u now s"
| "ts_step toLowerCase (DocumentChanged h u now) s = fst (onDidChangeTextDocument toLowerCase h u now s)"
| "ts_step toLowerCase (DocumentSaved h u now) s = fst (onDidSaveTextDocument toLowerCase h u now s)"
| "ts_step toLowerCase (ActiveEditorChanged editor) s = onDidChangeActiveTextEditor editor s"
| "ts_step toLowerCase (DocumentClosed u) s = onDidCloseTextDocument u s"
| "ts_step toLowerCase (PackageManagerActivity now) s = handlePackageManagerActivity now s"
| "ts_step toLowerCase (TimerFired handle now) s = timerFired handle now s"
| "ts_step toLowerCase (OpenFileCalled h r u) s = fst (openFile h r u s)"
| "ts_step toLowerCase (OpenFileResumed r u) s = fst (openFile_ladder r u s)"
| "ts_step toLowerCase Deactivate s = deactivate s"

fun ts_run :: "(string \<Rightarrow> string) \<Rightarrow> ts_event list \<Rightarrow> ts_state \<Rightarrow> ts_state" where
  "ts_run toLowerCase [] s = s"
| "ts_run toLowerCase (e # es) s = ts_run toLowerCase es (ts_step toLowerCase e s)"

text \<open>
  The cooldown timeouts are well formed when at most one is pending, it is the one whose
  handle \<open>packageManagerCooldown\<close> holds, and no handle in use is fresh.
\<close>

definition cooldown_ok :: "ts_state \<Rightarrow> bool" where
  "cooldown_ok s =
     ((case timers s of
         [] \<Rightarrow> True
       | [(handle, due)] \<Rightarrow> packageManagerCooldown s = Some handle
       | _ \<Rightarrow> False) \<and>
      (case packageManagerCooldown s of
         None \<Rightarrow> True
       | Some handle \<Rightarrow> handle < nextTimer s))"

section \<open>Concrete scenarios\<close>

text \<open>
  A host with no visible editor on which every file exists, is small and opens, and
  three source files of a workspace \<open>/w\<close>.
\<close>

definition quiet_host :: js_host where
  "quiet_host =
     \<lparr>openEditors = [], statSync = (\<lambda>p. Some 2048), openTextDocumentOk = (\<lambda>p. True)\<rparr>"

definition burst_a :: string where
  "burst_a = ''/w/src/a.ts''"

definition burst_b :: string where
  "burst_b = ''/w/src/b.ts''"

definition burst_c :: string where
  "burst_c = ''/w/src/c.ts''"

text \<open>The three files change 100 ms apart, starting from the initial state.\<close>

definition burst_s1 :: js_state where
  "burst_s1 = fst (handleFileChange_arrive asciiLower True quiet_host burst_a 1700000000000 js_init)"

definition burst_s2 :: js_state where
  "burst_s2 = fst (handleFileChange_arrive asciiLower True quiet_host burst_b 1700000000100 burst_s1)"

definition burst_s3 :: js_state where
  "burst_s3 = fst (handleFileChange_arrive asciiLower True quiet_host burst_c 1700000000200 burst_s2)"

text \<open>
  A hundred and one source files \<open>/w/aa/f.ts\<close>, \<open>/w/ab/f.ts\<close>, \<open>\<dots>\<close> of the workspace
  change 100 ms apart from 1699999985000 on, starting from the initial state: at time
  1700000000000 the first fifty records of the ledger are more than ten seconds old.
\<close>

definition crowd_paths :: "string list" where
  "crowd_paths =
     take 101 (map (\<lambda>(a, b). ''/w/'' @ [a, b] @ ''/f.ts'')
                 (List.product ''abcdefghijk'' ''abcdefghij''))"

definition crowd_events :: "(js_host \<times> string \<times> int) list" where
  "crowd_events =
     map (\<lambda>(p, i). (quiet_host, p, 1699999985000 + 100 * i)) (zip crowd_paths [0..100])"

definition crowded :: js_state where
  "crowded = js_arrivals asciiLower True crowd_events js_init"

text \<open>Changes to one and the same file: the second one falls into the debounce window.\<close>

definition same_path_events :: "(js_host \<times> string \<times> int) list" where
  "same_path_events =
     [(quiet_host, burst_a, 1700000000000), (quiet_host, burst_a, 1700000000100),
      (quiet_host, burst_a, 1700000001200), (quiet_host, burst_a, 1700000002300)]"

text \<open>
  For Cursor Auto-Open: a host whose workspace folder is \<open>/w\<close>, with no document in
  memory, on which every file exists and is small; editor calls that all succeed; and a
  source file of the workspace.
\<close>

definition ts_quiet_host :: host where
  "ts_quiet_host =
     \<lparr>asRelativePath = (\<lambda>u. drop 3 (fsPath u)), access = (\<lambda>p. True),
      stat = (\<lambda>p. Some 2048), textDocuments = [], visibleTextEditors = []\<rparr>"

definition all_ok :: responses where
  "all_ok =
     \<lparr>showInMemory = None, openCommand = None, showUri = None, showUriRetry = None,
      openDocument = None, showDocument = None\<rparr>"

definition app_ts :: uri where
  "app_ts = \<lparr>fsPath = ''/w/src/app.ts'', scheme = ''file''\<rparr>"

text \<open>A host on which \<open>burst_a\<close> is shown in an editor.\<close>

definition reading_host :: js_host where
  "reading_host =
     \<lparr>openEditors = [burst_a], statSync = (\<lambda>p. Some 2048), openTextDocumentOk = (\<lambda>p. True)\<rparr>"

text \<open>A host on which \<open>app_ts\<close> is in memory and shown in an editor.\<close>

definition ts_reading_host :: host where
  "ts_reading_host =
     \<lparr>asRelativePath = (\<lambda>u. drop 3 (fsPath u)), access = (\<lambda>p. True),
      stat = (\<lambda>p. Some 2048), textDocuments = [app_ts], visibleTextEditors = [app_ts]\<rparr>"

text \<open>
  A host on which the path of \<open>app_ts\<close> is shown in an editor, but through a document
  of scheme \<open>git\<close> (the file as of the last commit); the file itself is not in memory.
  There \<open>app_ts\<close> changes on disk at 1700005000000.
\<close>

definition git_doc :: uri where
  "git_doc = \<lparr>fsPath = ''/w/src/app.ts'', scheme = ''git''\<rparr>"

definition ts_git_host :: host where
  "ts_git_host =
     \<lparr>asRelativePath = (\<lambda>u. drop 3 (fsPath u)), access = (\<lambda>p. True),
      stat = (\<lambda>p. Some 2048), textDocuments = [git_doc], visibleTextEditors = [git_doc]\<rparr>"

definition git_s1 :: ts_state where
  "git_s1 = fst (onDidChange asciiLower ts_git_host app_ts 1700005000000 ts_init)"

text \<open>
  A file of a dependency, and a source file below a directory whose name merely ends in
  \<open>storage\<close>.
\<close>

definition vendor_js :: uri where
  "vendor_js = \<lparr>fsPath = ''/w/node_modules/left-pad/index.js'', scheme = ''file''\<rparr>"

definition views_ts :: uri where
  "views_ts = \<lparr>fsPath = ''/w/app/mystorage/framework/views/list.ts'', scheme = ''file''\<rparr>"

text \<open>
  A host on which \<open>app_ts\<close> is in memory but in no visible editor. There \<open>app_ts\<close> is
  saved at 1700005000000; 50 ms later a lock file changes; at 1700005000100 the save handler resumes
  and calls \<open>openFile\<close>.
\<close>

definition ts_background_host :: host where
  "ts_background_host =
     \<lparr>asRelativePath = (\<lambda>u. drop 3 (fsPath u)), access = (\<lambda>p. True),
      stat = (\<lambda>p. Some 2048), textDocuments = [app_ts], visibleTextEditors = []\<rparr>"

definition save_s1 :: ts_state where
  "save_s1 = fst (onDidSaveTextDocument asciiLower ts_background_host app_ts 1700005000000 ts_init)"

definition save_s2 :: ts_state where
  "save_s2 = handlePackageManagerActivity 1700005000050 save_s1"

text \<open>
  A source file whose extension is written with the Kelvin sign U+212A (the bytes
  \<open>E2 84 AA\<close>) in place of \<open>K\<close>, and a \<open>toLowerCase\<close> that, as the Unicode case tables
  do, maps that sign to \<open>k\<close> and is \<open>asciiLower\<close> otherwise.
\<close>

definition kelvin_sign :: string where
  "kelvin_sign = [CHR 0xE2, CHR 0x84, CHR 0xAA]"

fun kelvinLower :: "string \<Rightarrow> string" where
  "kelvinLower (a # b # c # cs) =
     (if [a, b, c] = kelvin_sign then CHR ''k'' # kelvinLower cs
      else lowerChar a # kelvinLower (b # c # cs))"
| "kelvinLower cs = asciiLower cs"

definition main_kt :: string where
  "main_kt = ''/w/src/Main.'' @ kelvin_sign @ ''t''"




text \<open>
  \<open>app_ts\<close> changes on disk at 1700005000000; 100 ms later a lock file changes; at 1700005000200 the
  change handler resumes and calls \<open>openFile\<close>.
\<close>

definition change_s1 :: ts_state where
  "change_s1 = fst (onDidChange asciiLower ts_quiet_host app_ts 1700005000000 ts_init)"

definition change_s2 :: ts_state where
  "change_s2 = handlePackageManagerActivity 1700005000100 change_s1"


text \<open>
  In Cursor Auto-Open the same hundred and one files change on disk 100 ms apart from
  1700004900000 on, starting from the initial state, the last of them 90 seconds before
  \<open>app_ts\<close> changes.
\<close>

definition ts_crowd_events :: "ts_event list" where
  "ts_crowd_events =
     map (\<lambda>(p, i). FileChanged ts_quiet_host \<lparr>fsPath = p, scheme = ''file''\<rparr>
                      (1700004900000 + 100 * i))
       (zip crowd_paths [0..100])"

definition ts_crowded :: ts_state where
  "ts_crowded = ts_run asciiLower ts_crowd_events ts_init"

text \<open>A first early-indicator event at 1700005000000, and what may follow a marking of \<open>app_ts\<close>.\<close>

definition first_activity :: "ts_event list" where
  "first_activity = [PackageManagerActivity 1700005000000]"

definition later_session :: "ts_event list" where
  "later_session =
     [DocumentClosed app_ts, FileChanged ts_quiet_host app_ts 1700005000000,
      PackageManagerActivity 1700005000100, TimerFired 0 1700005030100, ActiveEditorChanged None]"

section \<open>Purging the debounce ledgers\<close>

lemma accepted_recentChecks:
  assumes "snd (handleFileChange_arrive toLowerCase autoOpen h p now s) \<in> {OpenByUser, Waiting}"
  shows "recentChecks (fst (handleFileChange_arrive toLowerCase autoOpen h p now s)) =
           (if length (AList.update p now (recentChecks s)) > 100
            then cleanOld (now - CHECK_CACHE_TTL * 10) (AList.update p now (recentChecks s))
            else AList.update p now (recentChecks s))"
  using assms
  by (auto simp: handleFileChange_arrive_def Let_def split: if_splits)

lemma lastChecked_step:
  "lastCheckedFiles (ts_step toLowerCase e s) = lastCheckedFiles s \<or>
   (\<exists>h u now. e = FileChanged h u now \<and>
      lastCheckedFiles (ts_step toLowerCase e s) = AList.update (fsPath u) now (lastCheckedFiles s))"
  by (cases e)
     (auto simp: onDidCreate_def onDidChange_def onDidOpenTextDocument_def
        onDidChangeTextDocument_def onDidSaveTextDocument_def onDidChangeActiveTextEditor_def
        onDidCloseTextDocument_def openFile_def openFile_ladder_def markOpened_def
        handlePackageManagerActivity_def clearTimeout_def setTimeout_def timerFired_def
        deactivate_def Let_def split: option.splits)

lemma lastChecked_kept_step:
  assumes "map_of (lastCheckedFiles s) k = Some t"
  shows "\<exists>t'. map_of (lastCheckedFiles (ts_step toLowerCase e s)) k = Some t'"
  using lastChecked_step[of toLowerCase e s] assms by (auto simp: update_conv')

lemma lastChecked_kept_run:
  "map_of (lastCheckedFiles s) k = Some t \<Longrightarrow> \<exists>t'. map_of (lastCheckedFiles (ts_run toLowerCase evs s)) k = Some t'"
proof (induction evs arbitrary: s t)
  case Nil
  then show ?case by simp
next
  case (Cons e evs)
  from lastChecked_kept_step[OF Cons.prems, of toLowerCase e] obtain t' where
    "map_of (lastCheckedFiles (ts_step toLowerCase e s)) k = Some t'" by blast
  from Cons.IH[OF this] show ?case by simp
qed

lemma lastChecked_untouched_run:
  assumes "\<forall>h u now. FileChanged h u now \<in> set evs \<longrightarrow> fsPath u \<noteq> k"
  shows "map_of (lastCheckedFiles (ts_run toLowerCase evs s)) k = map_of (lastCheckedFiles s) k"
  using assms
proof (induction evs arbitrary: s)
  case Nil
  then show ?case by simp
next
  case (Cons e evs)
  have head: "fsPath u \<noteq> k" if "e = FileChanged h u now" for h u now
    using Cons.prems that by (metis list.set_intros(1))
  have tail: "\<forall>h u now. FileChanged h u now \<in> set evs \<longrightarrow> fsPath u \<noteq> k"
    using Cons.prems by (metis list.set_intros(2))
  have "map_of (lastCheckedFiles (ts_step toLowerCase e s)) k = map_of (lastCheckedFiles s) k"
    using lastChecked_step[of toLowerCase e s] head by (auto simp: update_conv')
  with Cons.IH[OF tail, of "ts_step toLowerCase e s"] show ?case by simp
qed

text \<open>
  The two sessions of a hundred and one changes, evaluated: every change is accepted, and
  each ledger holds one record per file, in the order of the changes. In Open Changed
  Files the purge of \<open>recentChecks\<close> runs once, on the last change, and deletes nothing,
  no record being older than ten seconds by then.
\<close>

lemma crowded_state:
  "crowded =
     \<lparr>recentChecks = map (\<lambda>(p, i). (p, 1699999985000 + 100 * i)) (zip crowd_paths [0..100]),
      recentFileChanges =
        map (\<lambda>(p, i). (p, 1699999985000 + 100 * i)) (drop 80 (zip crowd_paths [0..100]))\<rparr>"
  by code_simp

lemma ts_crowded_state:
  "ts_crowded =
     ts_init\<lparr>lastCheckedFiles :=
       map (\<lambda>(p, i). (p, 1700004900000 + 100 * i)) (zip crowd_paths [0..100])\<rparr>"
  by code_simp

text \<open>
  Claim C7, as stated, fails for the ledger of Cursor Auto-Open: \<open>lastCheckedFiles\<close> is
  never purged. After the changes of 101 files, which leave 101 entries more than 90
  seconds old, a change of \<open>app_ts\<close> passes the ledger and is recorded; afterwards the
  ledger holds 102 entries, the oldest one still among them, 100 seconds old at a TTL of
  2 seconds.
\<close>

theorem ledger_never_purged:
  "snd (onDidChange asciiLower ts_quiet_host app_ts 1700005000000 ts_crowded) = CallOpenFile 200 \<and>
   length (lastCheckedFiles ts_crowded) = 101 \<and>
   length (lastCheckedFiles (fst (onDidChange asciiLower ts_quiet_host app_ts 1700005000000 ts_crowded))) = 102 \<and>
   map_of (lastCheckedFiles (fst (onDidChange asciiLower ts_quiet_host app_ts 1700005000000 ts_crowded)))
     ''/w/aa/f.ts'' = Some 1700004900000"
  unfolding ts_crowded_state by code_simp

text \<open>
  Claim C7, amended. In Open Changed Files, a call of \<open>handleFileChange\<close> that passes
  the ledger \<open>recentChecks\<close> (it ends in \<open>OpenByUser\<close> or \<open>Waiting\<close>) records the path and
  then looks at the size of the ledger, not at a clock: when the ledger holds more than
  100 entries, exactly the entries older than ten times the TTL are deleted, so none of
  them remains; when it holds at most 100, nothing is deleted. In Cursor Auto-Open no
  event ever removes an entry of \<open>lastCheckedFiles\<close>, and the entry of a path keeps its
  timestamp for as long as that path does not change on disk again.
\<close>

theorem debounce_purge:
  assumes "snd (handleFileChange_arrive toLowerCase autoOpen h p now s) \<in> {OpenByUser, Waiting}"
  shows "(length (AList.update p now (recentChecks s)) > 100 \<longrightarrow>
            set (recentChecks (fst (handleFileChange_arrive toLowerCase autoOpen h p now s))) =
              {(k, t). (k, t) \<in> set (AList.update p now (recentChecks s)) \<and>
                       now - t \<le> 10 * CHECK_CACHE_TTL} \<and>
            (\<forall>(k, t) \<in> set (recentChecks (fst (handleFileChange_arrive toLowerCase autoOpen h p now s))).
               now - t \<le> 10 * CHECK_CACHE_TTL)) \<and>
         (length (AList.update p now (recentChecks s)) \<le> 100 \<longrightarrow>
            recentChecks (fst (handleFileChange_arrive toLowerCase autoOpen h p now s)) =
              AList.update p now (recentChecks s)) \<and>
         (map_of (lastCheckedFiles ts) k = Some t \<longrightarrow>
            (\<exists>t'. map_of (lastCheckedFiles (ts_run toLowerCase evs ts)) k = Some t')) \<and>
         ((\<forall>h u now. FileChanged h u now \<in> set evs \<longrightarrow> fsPath u \<noteq> k) \<longrightarrow>
            map_of (lastCheckedFiles (ts_run toLowerCase evs ts)) k = map_of (lastCheckedFiles ts) k)"
proof -
  have js: "(length (AList.update p now (recentChecks s)) > 100 \<longrightarrow>
            set (recentChecks (fst (handleFileChange_arrive toLowerCase autoOpen h p now s))) =
              {(k, t). (k, t) \<in> set (AList.update p now (recentChecks s)) \<and>
                       now - t \<le> 10 * CHECK_CACHE_TTL} \<and>
            (\<forall>(k, t) \<in> set (recentChecks (fst (handleFileChange_arrive toLowerCase autoOpen h p now s))).
               now - t \<le> 10 * CHECK_CACHE_TTL)) \<and>
         (length (AList.update p now (recentChecks s)) \<le> 100 \<longrightarrow>
            recentChecks (fst (handleFileChange_arrive toLowerCase autoOpen h p now s)) =
              AList.update p now (recentChecks s))"
    unfolding accepted_recentChecks[OF assms]
    by (auto simp: cleanOld_def)
  from js lastChecked_kept_run[of ts k t toLowerCase evs]
    lastChecked_untouched_run[of evs k toLowerCase ts]
  show ?thesis by blast
qed

theorem debounce_purge_witness:
  "snd (handleFileChange_arrive asciiLower True quiet_host burst_a 1700000000000 crowded) \<in> {OpenByUser, Waiting} \<and>
   length (AList.update burst_a 1700000000000 (recentChecks crowded)) = 102 \<and>
   length (recentChecks (fst (handleFileChange_arrive asciiLower True quiet_host burst_a 1700000000000 crowded))) = 52 \<and>
   set (recentChecks (fst (handleFileChange_arrive asciiLower True quiet_host burst_a 1700000000000 crowded))) =
     {(k, t). (k, t) \<in> set (AList.update burst_a 1700000000000 (recentChecks crowded)) \<and>
              1700000000000 - t \<le> 10 * CHECK_CACHE_TTL} \<and>
   snd (handleFileChange_arrive asciiLower True quiet_host burst_b 1700000020000 burst_s1) \<in> {OpenByUser, Waiting} \<and>
   recentChecks (fst (handleFileChange_arrive asciiLower True quiet_host burst_b 1700000020000 burst_s1)) =
     [(burst_a, 1700000000000), (burst_b, 1700000020000)] \<and>
   map_of (lastCheckedFiles (ts_run asciiLower later_session ts_crowded)) ''/w/aa/f.ts'' =
     Some 1700004900000"
proof -
  have accepted:
    "snd (handleFileChange_arrive asciiLower True quiet_host burst_a 1700000000000 crowded) \<in> {OpenByUser, Waiting}"
    unfolding crowded_state by code_simp
  have before: "length (AList.update burst_a 1700000000000 (recentChecks crowded)) = 102"
    unfolding crowded_state by code_simp
  have after:
    "length (recentChecks (fst (handleFileChange_arrive asciiLower True quiet_host burst_a 1700000000000 crowded))) = 52"
    unfolding crowded_state by code_simp
  have accepted':
    "snd (handleFileChange_arrive asciiLower True quiet_host burst_b 1700000020000 burst_s1) \<in> {OpenByUser, Waiting}"
    by code_simp
  have small: "AList.update burst_b 1700000020000 (recentChecks burst_s1) =
                 [(burst_a, 1700000000000), (burst_b, 1700000020000)]"
    by code_simp
  have old: "map_of (lastCheckedFiles ts_crowded) ''/w/aa/f.ts'' = Some 1700004900000"
    unfolding ts_crowded_state by code_simp
  have others:
    "\<forall>h u now. FileChanged h u now \<in> set later_session \<longrightarrow> fsPath u \<noteq> ''/w/aa/f.ts''"
    by (simp add: later_session_def app_ts_def)
  from debounce_purge[OF accepted, where ts = ts_crowded and k = "''/w/aa/f.ts''" and evs = later_session]
    debounce_purge[OF accepted'] before after accepted accepted' small old others
  show ?thesis by simp
qed

section \<open>Properties of Open Changed Files\<close>

subsection \<open>The batch check\<close>

lemma no_record_in_window:
  assumes "\<forall>(k, t) \<in> set (recentFileChanges s). t + BATCH_DETECTION_WINDOW \<le> now"
  shows "\<not> isLikelyBatchOperation now s"
proof -
  have "filter (\<lambda>timestamp. now - timestamp < BATCH_DETECTION_WINDOW) (map snd (recentFileChanges s)) = []"
    using assms by (fastforce simp: filter_empty_conv)
  then show ?thesis
    by (simp add: isLikelyBatchOperation_def del: filter_map)
qed

lemma update_entries: "set (AList.update k v al) \<subseteq> insert (k, v) (set al)"
  by (induction al) auto

lemma arrive_entries:
  "set (recentFileChanges (fst (handleFileChange_arrive toLowerCase autoOpen h p now s)))
     \<subseteq> insert (p, now) (set (recentFileChanges s))"
proof -
  have "set (cleanOld c (AList.update p now (recentFileChanges s)))
          \<subseteq> insert (p, now) (set (recentFileChanges s))" for c
    using update_entries[of p now "recentFileChanges s"] by (auto simp: cleanOld_def)
  with update_entries[of p now "recentFileChanges s"] show ?thesis
    by (auto simp: handleFileChange_arrive_def Let_def)
qed

text \<open>
  The last change of any burst is opened: when no record is later than the event and
  nothing else arrives, the batch check finds the window empty once the handler resumes,
  a full window after the event.
\<close>

lemma last_arrival_never_batch:
  assumes "\<forall>(k, t) \<in> set (recentFileChanges s). t \<le> now"
    and "now + BATCH_DETECTION_WINDOW \<le> resumed"
  shows "\<not> isLikelyBatchOperation resumed (fst (handleFileChange_arrive toLowerCase autoOpen h p now s))"
proof (rule no_record_in_window)
  show "\<forall>(k, t) \<in> set (recentFileChanges (fst (handleFileChange_arrive toLowerCase autoOpen h p now s))).
          t + BATCH_DETECTION_WINDOW \<le> resumed"
    using assms arrive_entries[of toLowerCase autoOpen h p now s] by fastforce
qed

text \<open>
  Claim C1. Three distinct allowed paths change within 200 ms, no file is visible. All
  three handlers suspend for the batch window. When each resumes, 500 ms after its own
  event, the batch check counts only timestamps less than 500 ms old: its own timestamp
  is no longer among them, so the counts are 2, 1 and 0, the check returns false each
  time, and all three files are opened.
\<close>

theorem burst_of_three_all_opened:
  "snd (handleFileChange_arrive asciiLower True quiet_host burst_a 1700000000000 js_init) = Waiting \<and>
   snd (handleFileChange_arrive asciiLower True quiet_host burst_b 1700000000100 burst_s1) = Waiting \<and>
   snd (handleFileChange_arrive asciiLower True quiet_host burst_c 1700000000200 burst_s2) = Waiting \<and>
   recentFileChanges burst_s3 = [(burst_a, 1700000000000), (burst_b, 1700000000100), (burst_c, 1700000000200)] \<and>
   isLikelyBatchOperation 1700000000500 burst_s3 = False \<and>
   isLikelyBatchOperation 1700000000600 burst_s3 = False \<and>
   isLikelyBatchOperation 1700000000700 burst_s3 = False \<and>
   handleFileChange_resume quiet_host burst_a 1700000000500 burst_s3 =
     [OpenTextDocument burst_a, ShowTextDocument burst_a] \<and>
   handleFileChange_resume quiet_host burst_b 1700000000600 burst_s3 =
     [OpenTextDocument burst_b, ShowTextDocument burst_b] \<and>
   handleFileChange_resume quiet_host burst_c 1700000000700 burst_s3 =
     [OpenTextDocument burst_c, ShowTextDocument burst_c]"
  by code_simp

theorem burst_of_three_all_opened_witness:
  "handleFileChange_resume quiet_host burst_a 1700000000500 burst_s3 \<noteq> [] \<and>
   handleFileChange_resume quiet_host burst_b 1700000000600 burst_s3 \<noteq> [] \<and>
   handleFileChange_resume quiet_host burst_c 1700000000700 burst_s3 \<noteq> []"
  using burst_of_three_all_opened by simp

subsection \<open>One timestamp per path\<close>

lemma cleanOld_keys: "fst ` set (cleanOld c m) \<subseteq> fst ` set m"
  by (auto simp: cleanOld_def)

lemma cleanOld_distinct: "distinct (map fst m) \<Longrightarrow> distinct (map fst (cleanOld c m))"
  by (simp add: cleanOld_def distinct_map_filter)

lemma arrive_recentFileChanges:
  "recentFileChanges (fst (handleFileChange_arrive toLowerCase autoOpen h q t s)) = recentFileChanges s \<or>
   recentFileChanges (fst (handleFileChange_arrive toLowerCase autoOpen h q t s)) =
     AList.update q t (recentFileChanges s) \<or>
   recentFileChanges (fst (handleFileChange_arrive toLowerCase autoOpen h q t s)) =
     cleanOld (t - BATCH_DETECTION_WINDOW * 2) (AList.update q t (recentFileChanges s))"
  by (auto simp: handleFileChange_arrive_def Let_def)

lemma arrive_distinct:
  assumes "distinct (map fst (recentFileChanges s))"
  shows "distinct (map fst (recentFileChanges (fst (handleFileChange_arrive toLowerCase autoOpen h q t s))))"
  using arrive_recentFileChanges[of toLowerCase autoOpen h q t s] assms
  by (auto simp: distinct_update cleanOld_distinct)

lemma arrive_keys:
  "fst ` set (recentFileChanges (fst (handleFileChange_arrive toLowerCase autoOpen h q t s)))
     \<subseteq> insert q (fst ` set (recentFileChanges s))"
proof -
  have u: "fst ` set (AList.update q t (recentFileChanges s)) = insert q (fst ` set (recentFileChanges s))"
    by (simp add: dom_update)
  have c: "fst ` set (cleanOld (t - BATCH_DETECTION_WINDOW * 2) (AList.update q t (recentFileChanges s)))
             \<subseteq> insert q (fst ` set (recentFileChanges s))"
    using cleanOld_keys[of "t - BATCH_DETECTION_WINDOW * 2" "AList.update q t (recentFileChanges s)"]
    unfolding u .
  from arrive_recentFileChanges[of toLowerCase autoOpen h q t s] show ?thesis
  proof (elim disjE)
    assume "recentFileChanges (fst (handleFileChange_arrive toLowerCase autoOpen h q t s)) = recentFileChanges s"
    then show ?thesis by (simp add: subset_insertI)
  next
    assume "recentFileChanges (fst (handleFileChange_arrive toLowerCase autoOpen h q t s)) =
              AList.update q t (recentFileChanges s)"
    then show ?thesis by (simp only: u subset_refl)
  next
    assume "recentFileChanges (fst (handleFileChange_arrive toLowerCase autoOpen h q t s)) =
              cleanOld (t - BATCH_DETECTION_WINDOW * 2) (AList.update q t (recentFileChanges s))"
    then show ?thesis by (simp only: c)
  qed
qed

lemma arrivals_distinct:
  "distinct (map fst (recentFileChanges s)) \<Longrightarrow>
   distinct (map fst (recentFileChanges (js_arrivals toLowerCase autoOpen evs s)))"
  by (induction evs arbitrary: s) (auto simp: arrive_distinct)

lemma arrivals_keys:
  "fst ` set (recentFileChanges (js_arrivals toLowerCase autoOpen evs s))
     \<subseteq> (\<lambda>(h, q, t). q) ` set evs \<union> fst ` set (recentFileChanges s)"
proof (induction evs arbitrary: s)
  case Nil
  then show ?case by simp
next
  case (Cons ev evs)
  obtain h q t where ev: "ev = (h, q, t)" by (cases ev)
  from Cons.IH[of "fst (handleFileChange_arrive toLowerCase autoOpen h q t s)"] arrive_keys[of toLowerCase autoOpen h q t s]
  show ?case unfolding ev by auto
qed

lemma distinct_keys_one:
  "distinct (map fst m) \<Longrightarrow> length (filter (\<lambda>(k, t). k = p) m) \<le> 1"
proof (induction m)
  case Nil
  then show ?case by simp
next
  case (Cons e m)
  obtain k t where e: "e = (k, t)" by (cases e)
  show ?case
  proof (cases "k = p")
    case True
    with Cons.prems e have "p \<notin> fst ` set m" by auto
    then have "filter (\<lambda>(k, t). k = p) m = []"
      by (force simp: filter_empty_conv)
    with True e show ?thesis by simp
  next
    case False
    with Cons e show ?thesis by simp
  qed
qed

lemma keys_in_singleton:
  assumes "distinct (map fst m)" "fst ` set m \<subseteq> {p}"
  shows "length m \<le> 1"
proof -
  have "filter (\<lambda>(k, t). k = p) m = m"
    using assms(2) by (force simp: filter_id_conv)
  with distinct_keys_one[OF assms(1), of p] show ?thesis by simp
qed

lemma accepted_recentFileChanges:
  assumes "snd (handleFileChange_arrive toLowerCase autoOpen h p now s) \<in> {OpenByUser, Waiting}"
  shows "recentFileChanges (fst (handleFileChange_arrive toLowerCase autoOpen h p now s)) =
           (if length (AList.update p now (recentFileChanges s)) > 50
            then cleanOld (now - BATCH_DETECTION_WINDOW * 2) (AList.update p now (recentFileChanges s))
            else AList.update p now (recentFileChanges s))"
  using assms
  by (auto simp: handleFileChange_arrive_def Let_def split: if_splits)

lemma accepted_overwrites:
  assumes "snd (handleFileChange_arrive toLowerCase autoOpen h p now s) \<in> {OpenByUser, Waiting}"
  shows "map_of (recentFileChanges (fst (handleFileChange_arrive toLowerCase autoOpen h p now s))) p = Some now"
proof -
  have upd: "map_of (AList.update p now (recentFileChanges s)) p = Some now"
    by (simp add: update_conv')
  have "map_of (cleanOld (now - BATCH_DETECTION_WINDOW * 2) (AList.update p now (recentFileChanges s))) p
          = Some now"
    unfolding cleanOld_def
    by (rule map_of_filter_in[OF upd]) (simp add: BATCH_DETECTION_WINDOW_def)
  with upd show ?thesis
    unfolding accepted_recentFileChanges[OF assms] by simp
qed

text \<open>
  Claim C9. \<open>recentFileChanges\<close> is keyed by path: a change that is recorded replaces the
  timestamp of its path, and along any run of arrivals from a state with distinct keys
  the keys stay distinct, so every path owns at most one timestamp, however often it
  changes. When the window starts empty and every event is for the same path \<open>p\<close>, the
  window never holds more than one entry and the batch check is false at every time.
\<close>

theorem single_path_never_batch:
  assumes "distinct (map fst (recentFileChanges s))"
  shows "(snd (handleFileChange_arrive toLowerCase autoOpen h p now s) \<in> {OpenByUser, Waiting} \<longrightarrow>
            map_of (recentFileChanges (fst (handleFileChange_arrive toLowerCase autoOpen h p now s))) p
              = Some now) \<and>
         distinct (map fst (recentFileChanges (js_arrivals toLowerCase autoOpen evs s))) \<and>
         length (filter (\<lambda>(k, t). k = p) (recentFileChanges (js_arrivals toLowerCase autoOpen evs s))) \<le> 1 \<and>
         (recentFileChanges s = [] \<and> (\<forall>(h, q, t) \<in> set evs. q = p) \<longrightarrow>
            length (recentFileChanges (js_arrivals toLowerCase autoOpen evs s)) \<le> 1 \<and>
            (\<forall>now. \<not> isLikelyBatchOperation now (js_arrivals toLowerCase autoOpen evs s)))"
proof -
  let ?m = "recentFileChanges (js_arrivals toLowerCase autoOpen evs s)"
  have d: "distinct (map fst ?m)" by (rule arrivals_distinct[OF assms])
  have one: "length ?m \<le> 1" if "recentFileChanges s = []" "\<forall>(h, q, t) \<in> set evs. q = p"
  proof -
    have "fst ` set ?m \<subseteq> {p}"
      using arrivals_keys[of toLowerCase autoOpen evs s] that by auto
    with d show ?thesis by (rule keys_in_singleton)
  qed
  have nb: "\<not> isLikelyBatchOperation now (js_arrivals toLowerCase autoOpen evs s)" if "length ?m \<le> 1" for now
  proof -
    have "length (filter (\<lambda>timestamp. now - timestamp < BATCH_DETECTION_WINDOW) (map snd ?m))
            \<le> length (map snd ?m)"
      by (rule length_filter_le)
    also have "\<dots> = length ?m" by simp
    finally show ?thesis
      using that unfolding isLikelyBatchOperation_def Let_def by linarith
  qed
  from d distinct_keys_one[OF d, of p] one nb accepted_overwrites[of toLowerCase autoOpen h p now s]
  show ?thesis by blast
qed

theorem single_path_never_batch_witness:
  "distinct (map fst (recentFileChanges burst_s3)) \<and>
   map_of (recentFileChanges burst_s3) burst_a = Some 1700000000000 \<and>
   map_of (recentFileChanges (fst (handleFileChange_arrive asciiLower True quiet_host burst_a 1700000001500 burst_s3)))
     burst_a = Some 1700000001500 \<and>
   length (filter (\<lambda>(k, t). k = burst_a)
     (recentFileChanges (js_arrivals asciiLower True same_path_events burst_s3))) = 1 \<and>
   recentFileChanges js_init = [] \<and>
   map (\<lambda>(h, q, t). q) same_path_events = [burst_a, burst_a, burst_a, burst_a] \<and>
   recentFileChanges (js_arrivals asciiLower True same_path_events js_init) = [(burst_a, 1700000002300)] \<and>
   (\<forall>now. \<not> isLikelyBatchOperation now (js_arrivals asciiLower True same_path_events js_init))"
proof -
  have d0: "distinct (map fst (recentFileChanges js_init))"
    by (simp add: js_init_def)
  have e: "recentFileChanges js_init = []"
    by (simp add: js_init_def)
  have same: "\<forall>(h, q, t) \<in> set same_path_events. q = burst_a"
    by (simp add: same_path_events_def)
  have paths: "map (\<lambda>(h, q, t). q) same_path_events = [burst_a, burst_a, burst_a, burst_a]"
    by (simp add: same_path_events_def)
  have final: "recentFileChanges (js_arrivals asciiLower True same_path_events js_init) = [(burst_a, 1700000002300)]"
    by code_simp
  have d3: "distinct (map fst (recentFileChanges burst_s3))"
    by code_simp
  have old: "map_of (recentFileChanges burst_s3) burst_a = Some 1700000000000"
    by code_simp
  have accepted:
    "snd (handleFileChange_arrive asciiLower True quiet_host burst_a 1700000001500 burst_s3) \<in> {OpenByUser, Waiting}"
    by code_simp
  have once: "length (filter (\<lambda>(k, t). k = burst_a)
                (recentFileChanges (js_arrivals asciiLower True same_path_events burst_s3))) = 1"
    by code_simp
  from single_path_never_batch[OF d0, where toLowerCase = asciiLower and autoOpen = True and h = quiet_host and p = burst_a
        and now = 1700000000000 and evs = same_path_events]
    single_path_never_batch[OF d3, where toLowerCase = asciiLower and autoOpen = True and h = quiet_host and p = burst_a
        and now = 1700000001500 and evs = same_path_events]
    d3 old accepted once e same paths final
  show ?thesis by blast
qed

section \<open>The debounce ledgers\<close>

lemma onDidChange_accept:
  assumes "\<not> isPackageManagerRunning s"
    and "\<not> str_includes (asRelativePath h u) ''storage/''"
    and "\<not> str_includes (asRelativePath h u) (''storage'' @ [backslash])"
    and "shouldAutoOpen toLowerCase h u"
    and "(case map_of (lastCheckedFiles s) (fsPath u) of None \<Rightarrow> 0 | Some c \<Rightarrow> c) + 2000 \<le> now"
  shows "onDidChange toLowerCase h u now s =
           (s\<lparr>lastCheckedFiles := AList.update (fsPath u) now (lastCheckedFiles s)\<rparr>, CallOpenFile 200)"
  using assms by (simp add: onDidChange_def Let_def)

lemma onDidChange_reject:
  assumes "\<not> isPackageManagerRunning s"
    and "\<not> str_includes (asRelativePath h u) ''storage/''"
    and "\<not> str_includes (asRelativePath h u) (''storage'' @ [backslash])"
    and "shouldAutoOpen toLowerCase h u"
    and "now < (case map_of (lastCheckedFiles s) (fsPath u) of None \<Rightarrow> 0 | Some c \<Rightarrow> c) + 2000"
  shows "onDidChange toLowerCase h u now s = (s, SkipDebounced)"
  using assms by (simp add: onDidChange_def Let_def)

lemma arrive_accept:
  assumes "shouldOpenFile toLowerCase p"
    and "case map_of (recentChecks s) p of None \<Rightarrow> True | Some c \<Rightarrow> c = 0 \<or> c + CHECK_CACHE_TTL \<le> now"
  shows "snd (handleFileChange_arrive toLowerCase True h p now s) \<in> {OpenByUser, Waiting}"
    and "map_of (recentChecks (fst (handleFileChange_arrive toLowerCase True h p now s))) p = Some now"
proof -
  have notdup: "\<not> (case map_of (recentChecks s) p of None \<Rightarrow> False
                    | Some lastCheck \<Rightarrow> lastCheck \<noteq> 0 \<and> now - lastCheck < CHECK_CACHE_TTL)"
    using assms(2) by (auto split: option.splits)
  show acc: "snd (handleFileChange_arrive toLowerCase True h p now s) \<in> {OpenByUser, Waiting}"
    using assms(1) notdup by (simp add: handleFileChange_arrive_def Let_def)
  have upd: "map_of (AList.update p now (recentChecks s)) p = Some now"
    by (simp add: update_conv')
  have "map_of (cleanOld (now - CHECK_CACHE_TTL * 10) (AList.update p now (recentChecks s))) p = Some now"
    unfolding cleanOld_def
    by (rule map_of_filter_in[OF upd]) (simp add: CHECK_CACHE_TTL_def)
  with upd show "map_of (recentChecks (fst (handleFileChange_arrive toLowerCase True h p now s))) p = Some now"
    unfolding accepted_recentChecks[OF acc] by simp
qed

lemma arrive_reject:
  assumes "shouldOpenFile toLowerCase p" "map_of (recentChecks s) p = Some c" "c \<noteq> 0" "now - c < CHECK_CACHE_TTL"
  shows "handleFileChange_arrive toLowerCase True h p now s = (s, DuplicateCheck)"
  using assms by (simp add: handleFileChange_arrive_def)

lemma onDidChange_accepted:
  assumes "snd (onDidChange toLowerCase h u now s) = CallOpenFile d"
  shows "\<not> isPackageManagerRunning s"
    and "\<not> str_includes (asRelativePath h u) ''storage/''"
    and "\<not> str_includes (asRelativePath h u) (''storage'' @ [backslash])"
    and "shouldAutoOpen toLowerCase h u"
    and "onDidChange toLowerCase h u now s =
           (s\<lparr>lastCheckedFiles := AList.update (fsPath u) now (lastCheckedFiles s)\<rparr>, CallOpenFile 200)"
  using assms by (auto simp: onDidChange_def Let_def split: if_splits)

lemma arrive_accepted:
  assumes "snd (handleFileChange_arrive toLowerCase autoOpen h p now s) \<in> {OpenByUser, Waiting}"
  shows "autoOpen" and "shouldOpenFile toLowerCase p"
  using assms by (auto simp: handleFileChange_arrive_def Let_def split: if_splits)

text \<open>
  Claim C6. The ledger of Cursor Auto-Open is \<open>lastCheckedFiles\<close> (TTL 2000 ms), reached
  by an external change of an allowed path while no package manager runs; the ledger of
  Open Changed Files is \<open>recentChecks\<close> (TTL 1000 ms), reached by a change of an allowed
  path. When the call at \<open>t\<close> passes the ledger, as it does for a path without entry
  (in \<open>lastCheckedFiles\<close>, where a missing entry reads as 0, from the clock reading 2000
  on), it stores \<open>t\<close>; a call at \<open>t'\<close> with
  \<open>t' - t < TTL\<close> is then rejected and leaves the whole state as it was; and a call at
  \<open>t''\<close> with \<open>t'' - t \<ge> TTL\<close> passes again and stores \<open>t''\<close>. For \<open>recentChecks\<close> the clock
  reading \<open>t\<close> must not be 0, because \<open>lastCheck && \<dots>\<close> takes a stored 0 for a missing
  entry.
\<close>

theorem debounce_idempotence:
  assumes "snd (onDidChange toLowerCase h u t s) = CallOpenFile 200"
    and "t' - t < 2000" and "2000 \<le> t'' - t"
    and "snd (handleFileChange_arrive toLowerCase autoOpen jh p jt js) \<in> {OpenByUser, Waiting}"
    and "jt \<noteq> 0" and "jt' - jt < CHECK_CACHE_TTL" and "CHECK_CACHE_TTL \<le> jt'' - jt"
  shows "map_of (lastCheckedFiles (fst (onDidChange toLowerCase h u t s))) (fsPath u) = Some t \<and>
         onDidChange toLowerCase h u t' (fst (onDidChange toLowerCase h u t s)) = (fst (onDidChange toLowerCase h u t s), SkipDebounced) \<and>
         snd (onDidChange toLowerCase h u t'' (fst (onDidChange toLowerCase h u t s))) = CallOpenFile 200 \<and>
         map_of (lastCheckedFiles (fst (onDidChange toLowerCase h u t'' (fst (onDidChange toLowerCase h u t s))))) (fsPath u)
           = Some t'' \<and>
         map_of (recentChecks (fst (handleFileChange_arrive toLowerCase autoOpen jh p jt js))) p = Some jt \<and>
         handleFileChange_arrive toLowerCase autoOpen jh' p jt' (fst (handleFileChange_arrive toLowerCase autoOpen jh p jt js))
           = (fst (handleFileChange_arrive toLowerCase autoOpen jh p jt js), DuplicateCheck) \<and>
         snd (handleFileChange_arrive toLowerCase autoOpen jh'' p jt''
                (fst (handleFileChange_arrive toLowerCase autoOpen jh p jt js))) \<in> {OpenByUser, Waiting} \<and>
         map_of (recentChecks (fst (handleFileChange_arrive toLowerCase autoOpen jh'' p jt''
                   (fst (handleFileChange_arrive toLowerCase autoOpen jh p jt js))))) p = Some jt''"
proof -
  note reach = onDidChange_accepted[OF assms(1)]
  let ?s1 = "s\<lparr>lastCheckedFiles := AList.update (fsPath u) t (lastCheckedFiles s)\<rparr>"
  have first: "onDidChange toLowerCase h u t s = (?s1, CallOpenFile 200)"
    by (rule reach(5))
  have idle: "\<not> isPackageManagerRunning ?s1"
    using reach(1) by simp
  have stored: "map_of (lastCheckedFiles ?s1) (fsPath u) = Some t"
    by (simp add: update_conv')
  have second: "onDidChange toLowerCase h u t' ?s1 = (?s1, SkipDebounced)"
    using idle reach(2-4) assms(2) stored by (intro onDidChange_reject) simp_all
  have third: "onDidChange toLowerCase h u t'' ?s1 =
      (?s1\<lparr>lastCheckedFiles := AList.update (fsPath u) t'' (lastCheckedFiles ?s1)\<rparr>, CallOpenFile 200)"
    using idle reach(2-4) assms(3) stored by (intro onDidChange_accept) simp_all
  note on = arrive_accepted[OF assms(4)]
  let ?j1 = "fst (handleFileChange_arrive toLowerCase autoOpen jh p jt js)"
  have enabled: "autoOpen = True" using on(1) by simp
  have jstored: "map_of (recentChecks ?j1) p = Some jt"
  proof -
    have upd: "map_of (AList.update p jt (recentChecks js)) p = Some jt"
      by (simp add: update_conv')
    have "map_of (cleanOld (jt - CHECK_CACHE_TTL * 10) (AList.update p jt (recentChecks js))) p = Some jt"
      unfolding cleanOld_def
      by (rule map_of_filter_in[OF upd]) (simp add: CHECK_CACHE_TTL_def)
    with upd show ?thesis
      unfolding accepted_recentChecks[OF assms(4)] by simp
  qed
  have j2: "handleFileChange_arrive toLowerCase autoOpen jh' p jt' ?j1 = (?j1, DuplicateCheck)"
    unfolding enabled using on(2) assms(5,6) jstored[unfolded enabled]
    by (intro arrive_reject) simp_all
  have j3: "snd (handleFileChange_arrive toLowerCase autoOpen jh'' p jt'' ?j1) \<in> {OpenByUser, Waiting}"
    and j3s: "map_of (recentChecks (fst (handleFileChange_arrive toLowerCase autoOpen jh'' p jt'' ?j1))) p = Some jt''"
    unfolding enabled
    using arrive_accept[where toLowerCase = toLowerCase and p = p
        and s = "fst (handleFileChange_arrive toLowerCase True jh p jt js)"
        and now = jt'' and h = jh''] on(2) assms(7) jstored[unfolded enabled]
    by simp_all
  show ?thesis
    unfolding first second third fst_conv snd_conv
    using stored jstored j2 j3 j3s first by (simp add: update_conv')
qed

theorem debounce_idempotence_witness:
  "snd (onDidChange asciiLower ts_quiet_host app_ts 1700005000000 ts_init) = CallOpenFile 200 \<and>
   onDidChange asciiLower ts_quiet_host app_ts 1700005001999 (fst (onDidChange asciiLower ts_quiet_host app_ts 1700005000000 ts_init))
     = (fst (onDidChange asciiLower ts_quiet_host app_ts 1700005000000 ts_init), SkipDebounced) \<and>
   snd (onDidChange asciiLower ts_quiet_host app_ts 1700005002000
          (fst (onDidChange asciiLower ts_quiet_host app_ts 1700005000000 ts_init))) = CallOpenFile 200 \<and>
   snd (handleFileChange_arrive asciiLower True quiet_host burst_a 1700000000000 js_init) \<in> {OpenByUser, Waiting} \<and>
   handleFileChange_arrive asciiLower True quiet_host burst_a 1700000000999
       (fst (handleFileChange_arrive asciiLower True quiet_host burst_a 1700000000000 js_init))
     = (fst (handleFileChange_arrive asciiLower True quiet_host burst_a 1700000000000 js_init), DuplicateCheck) \<and>
   snd (handleFileChange_arrive asciiLower True quiet_host burst_a 1700000001000
          (fst (handleFileChange_arrive asciiLower True quiet_host burst_a 1700000000000 js_init)))
     \<in> {OpenByUser, Waiting}"
proof -
  have h1: "snd (onDidChange asciiLower ts_quiet_host app_ts 1700005000000 ts_init) = CallOpenFile 200"
    by code_simp
  have h2: "(1700005001999::int) - 1700005000000 < 2000" "(2000::int) \<le> 1700005002000 - 1700005000000"
    by simp_all
  have h3: "snd (handleFileChange_arrive asciiLower True quiet_host burst_a 1700000000000 js_init) \<in> {OpenByUser, Waiting}"
    by code_simp
  have h4: "(1700000000000::int) \<noteq> 0" "(1700000000999::int) - 1700000000000 < CHECK_CACHE_TTL"
    "CHECK_CACHE_TTL \<le> 1700000001000 - 1700000000000"
    by (simp_all add: CHECK_CACHE_TTL_def)
  from debounce_idempotence[OF h1 h2 h3 h4, where jh' = quiet_host and jh'' = quiet_host] h1 h3
  show ?thesis by blast
qed

section \<open>Properties of Cursor Auto-Open\<close>

subsection \<open>The package manager cooldown\<close>

lemma timers_other_step:
  assumes "\<And>now. e \<noteq> PackageManagerActivity now" "\<And>handle now. e \<noteq> TimerFired handle now"
  shows "timers (ts_step toLowerCase e s) = timers s \<and>
         isPackageManagerRunning (ts_step toLowerCase e s) = isPackageManagerRunning s \<and>
         packageManagerCooldown (ts_step toLowerCase e s) = packageManagerCooldown s \<and>
         activityStartTime (ts_step toLowerCase e s) = activityStartTime s \<and>
         nextTimer (ts_step toLowerCase e s) = nextTimer s"
  using assms
  by (cases e)
     (auto simp: onDidCreate_def onDidChange_def onDidOpenTextDocument_def
        onDidChangeTextDocument_def onDidSaveTextDocument_def onDidChangeActiveTextEditor_def
        onDidCloseTextDocument_def openFile_def openFile_ladder_def markOpened_def deactivate_def
        Let_def split: option.splits)

lemma activity_effect:
  assumes "cooldown_ok s"
  shows "timers (handlePackageManagerActivity now s) = [(nextTimer s, now + 30000)]"
    and "packageManagerCooldown (handlePackageManagerActivity now s) = Some (nextTimer s)"
    and "nextTimer (handlePackageManagerActivity now s) = Suc (nextTimer s)"
    and "isPackageManagerRunning (handlePackageManagerActivity now s)"
    and "activityStartTime (handlePackageManagerActivity now s) =
           (if isPackageManagerRunning s then activityStartTime s else now)"
  using assms
  by (auto simp: cooldown_ok_def handlePackageManagerActivity_def clearTimeout_def setTimeout_def
        Let_def split: option.splits list.splits if_splits)

lemma activity_keeps_ok:
  "cooldown_ok s \<Longrightarrow> cooldown_ok (handlePackageManagerActivity now s)"
  by (simp add: cooldown_ok_def[of "handlePackageManagerActivity now s"] activity_effect)

lemma timerFired_keeps_ok:
  "cooldown_ok s \<Longrightarrow> cooldown_ok (timerFired handle now s)"
  by (auto simp: cooldown_ok_def timerFired_def clearTimeout_def split: option.splits list.splits if_splits)

lemma cooldown_ok_cong:
  assumes "timers s' = timers s" "packageManagerCooldown s' = packageManagerCooldown s"
    and "nextTimer s' = nextTimer s"
  shows "cooldown_ok s' = cooldown_ok s"
  unfolding cooldown_ok_def assms ..

lemma step_keeps_ok:
  assumes "cooldown_ok s"
  shows "cooldown_ok (ts_step toLowerCase e s)"
proof -
  consider (activity) now where "e = PackageManagerActivity now"
    | (fired) handle now where "e = TimerFired handle now"
    | (other) "\<And>now. e \<noteq> PackageManagerActivity now" "\<And>handle now. e \<noteq> TimerFired handle now"
    by (cases e) auto
  then show ?thesis
  proof cases
    case activity
    with assms show ?thesis by (simp add: activity_keeps_ok)
  next
    case fired
    with assms show ?thesis by (simp add: timerFired_keeps_ok)
  next
    case other
    from timers_other_step[OF other, of toLowerCase s] have "cooldown_ok (ts_step toLowerCase e s) = cooldown_ok s"
      by (intro cooldown_ok_cong) simp_all
    with assms show ?thesis by simp
  qed
qed

lemma run_keeps_ok: "cooldown_ok s \<Longrightarrow> cooldown_ok (ts_run toLowerCase evs s)"
  by (induction evs arbitrary: s) (auto simp: step_keeps_ok)

lemma init_ok: "cooldown_ok ts_init"
  by (simp add: cooldown_ok_def ts_init_def)

lemma armed_step:
  assumes "timers s = [(handle, due)]" "isPackageManagerRunning s"
    and "\<not> isPackageManagerRunning (ts_step toLowerCase e s)"
  shows "\<exists>now. e = TimerFired handle now \<and> due \<le> now"
proof (cases e)
  case (PackageManagerActivity now)
  with assms show ?thesis
    by (auto simp: handlePackageManagerActivity_def clearTimeout_def setTimeout_def Let_def
          split: option.splits if_splits)
next
  case (TimerFired h' now)
  with assms show ?thesis
    by (auto simp: timerFired_def clearTimeout_def split: option.splits if_splits)
qed (use assms timers_other_step[of e toLowerCase s] in auto)

lemma armed_run:
  assumes "timers s = [(handle, due)]" "isPackageManagerRunning s"
    and "\<forall>e \<in> set evs. (\<forall>now. e \<noteq> PackageManagerActivity now) \<and>
                         (\<forall>h' now. e = TimerFired h' now \<longrightarrow> now < due)"
  shows "timers (ts_run toLowerCase evs s) = [(handle, due)] \<and> isPackageManagerRunning (ts_run toLowerCase evs s)"
  using assms
proof (induction evs arbitrary: s)
  case Nil
  then show ?case by simp
next
  case (Cons e evs)
  have "timers (ts_step toLowerCase e s) = [(handle, due)] \<and> isPackageManagerRunning (ts_step toLowerCase e s)"
  proof (cases e)
    case (PackageManagerActivity now)
    with Cons.prems(3) show ?thesis by auto
  next
    case (TimerFired h' now)
    with Cons.prems show ?thesis
      by (auto simp: timerFired_def split: option.splits if_splits)
  qed (use Cons.prems timers_other_step[of e toLowerCase s] in auto)
  with Cons.IH[of "ts_step toLowerCase e s"] Cons.prems(3) show ?case by simp
qed

text \<open>
  Claim C4. In every state a session can reach in which the cooldown is active, an
  early-indicator event at time \<open>now\<close> cancels the pending timeout and leaves exactly one,
  due at \<open>now + 30000\<close>; \<open>activityStartTime\<close> keeps its value and the flag stays set.
  From there the flag can only be cleared by that timeout firing, at a time of at least
  \<open>now + 30000\<close>: no other event clears it, it survives every run of events that holds no
  further early-indicator event and no timeout callback at or after the due time, and the
  timeout firing when due clears it.
\<close>

theorem suppression_extension:
  assumes "s = ts_run toLowerCase session ts_init" "isPackageManagerRunning s"
  shows "timers (handlePackageManagerActivity now s) = [(nextTimer s, now + 30000)] \<and>
         packageManagerCooldown (handlePackageManagerActivity now s) = Some (nextTimer s) \<and>
         activityStartTime (handlePackageManagerActivity now s) = activityStartTime s \<and>
         isPackageManagerRunning (handlePackageManagerActivity now s) \<and>
         (\<forall>e. \<not> isPackageManagerRunning (ts_step toLowerCase e (handlePackageManagerActivity now s)) \<longrightarrow>
              (\<exists>fired. e = TimerFired (nextTimer s) fired \<and> now + 30000 \<le> fired)) \<and>
         (\<forall>evs. (\<forall>e \<in> set evs. (\<forall>t. e \<noteq> PackageManagerActivity t) \<and>
                                 (\<forall>handle fired. e = TimerFired handle fired \<longrightarrow> fired < now + 30000))
              \<longrightarrow> isPackageManagerRunning (ts_run toLowerCase evs (handlePackageManagerActivity now s))) \<and>
         (\<forall>fired. now + 30000 \<le> fired \<longrightarrow>
              \<not> isPackageManagerRunning
                   (timerFired (nextTimer s) fired (handlePackageManagerActivity now s)))"
proof -
  let ?s' = "handlePackageManagerActivity now s"
  have ok: "cooldown_ok s"
    unfolding assms(1) by (rule run_keeps_ok[OF init_ok])
  note eff = activity_effect[OF ok, of now]
  have t: "timers ?s' = [(nextTimer s, now + 30000)]" by (rule eff(1))
  have r: "isPackageManagerRunning ?s'" by (rule eff(4))
  have only: "\<exists>fired. e = TimerFired (nextTimer s) fired \<and> now + 30000 \<le> fired"
    if "\<not> isPackageManagerRunning (ts_step toLowerCase e ?s')" for e
    using armed_step[OF t r that] .
  have stays: "isPackageManagerRunning (ts_run toLowerCase evs ?s')"
    if "\<forall>e \<in> set evs. (\<forall>t. e \<noteq> PackageManagerActivity t) \<and>
                         (\<forall>handle fired. e = TimerFired handle fired \<longrightarrow> fired < now + 30000)" for evs
    using armed_run[OF t r that] by simp
  have fires: "\<not> isPackageManagerRunning (timerFired (nextTimer s) fired ?s')"
    if "now + 30000 \<le> fired" for fired
    using that by (simp add: timerFired_def t clearTimeout_def)
  from t eff(2) eff(5) assms(2) r only stays fires show ?thesis by auto
qed

theorem suppression_extension_witness:
  "isPackageManagerRunning (ts_run asciiLower first_activity ts_init) \<and>
   timers (ts_run asciiLower first_activity ts_init) = [(0, 1700005030000)] \<and>
   activityStartTime (ts_run asciiLower first_activity ts_init) = 1700005000000 \<and>
   timers (handlePackageManagerActivity 1700005005000 (ts_run asciiLower first_activity ts_init)) = [(1, 1700005035000)] \<and>
   activityStartTime (handlePackageManagerActivity 1700005005000 (ts_run asciiLower first_activity ts_init)) = 1700005000000 \<and>
   isPackageManagerRunning
     (timerFired 1 1700005030000 (handlePackageManagerActivity 1700005005000 (ts_run asciiLower first_activity ts_init))) \<and>
   isPackageManagerRunning
     (timerFired 0 1700005030000 (handlePackageManagerActivity 1700005005000 (ts_run asciiLower first_activity ts_init))) \<and>
   \<not> isPackageManagerRunning
     (timerFired 1 1700005035000 (handlePackageManagerActivity 1700005005000 (ts_run asciiLower first_activity ts_init)))"
proof -
  have active: "isPackageManagerRunning (ts_run asciiLower first_activity ts_init)"
    by code_simp
  have before: "timers (ts_run asciiLower first_activity ts_init) = [(0, 1700005030000)]"
    "activityStartTime (ts_run asciiLower first_activity ts_init) = 1700005000000"
    "nextTimer (ts_run asciiLower first_activity ts_init) = 1"
    by code_simp+
  have early:
    "isPackageManagerRunning
       (timerFired 1 1700005030000 (handlePackageManagerActivity 1700005005000 (ts_run asciiLower first_activity ts_init)))"
    "isPackageManagerRunning
       (timerFired 0 1700005030000 (handlePackageManagerActivity 1700005005000 (ts_run asciiLower first_activity ts_init)))"
    by code_simp+
  from suppression_extension[OF refl active, of 1700005005000] before early active
  show ?thesis by simp
qed

subsection \<open>Suppression while a package manager runs\<close>

text \<open>
  Claim C3, as stated, fails: a handler that passed the suppression check before the
  cooldown was activated is not stopped by it. \<open>app_ts\<close>, in memory but not visible, is
  saved while no package manager runs, so the save handler waits 100 ms before calling
  \<open>openFile\<close>; a lock file changes during the wait and activates suppression; the handler
  resumes and \<open>openFile\<close> calls \<open>showTextDocument\<close>, with \<open>isPackageManagerRunning\<close> set
  and the cooldown timeout still pending.
\<close>

theorem open_while_suppressed:
  "snd (onDidSaveTextDocument asciiLower ts_background_host app_ts 1700005000000 ts_init) = CallOpenFile 100 \<and>
   isPackageManagerRunning save_s2 \<and>
   timers save_s2 = [(0, 1700005030050)] \<and>
   snd (openFile ts_background_host all_ok app_ts save_s2) =
     ShownFromMemory [ShowTextDocumentDoc app_ts]"
  by code_simp

text \<open>
  Claim C3, amended. While \<open>isPackageManagerRunning\<close> is set, each of the four handlers
  (file creation, external change, internal text change, save) returns at once, whatever
  the host, the document and the time are, hence before the path filter or any later
  check; it leaves the state as it is and does not go on to \<open>openFile\<close>. So no event that
  arrives while suppression is active leads to an open-file action.
\<close>

theorem suppression_short_circuit:
  assumes "isPackageManagerRunning s"
  shows "onDidCreate toLowerCase h u s = (s, SkipPackageManager) \<and>
         onDidChange toLowerCase h u now s = (s, SkipPackageManager) \<and>
         onDidChangeTextDocument toLowerCase h u now s = (s, SkipPackageManager) \<and>
         onDidSaveTextDocument toLowerCase h u now s = (s, SkipPackageManager)"
  using assms
  by (simp add: onDidCreate_def onDidChange_def onDidChangeTextDocument_def
        onDidSaveTextDocument_def)

theorem suppression_short_circuit_witness:
  "isPackageManagerRunning change_s2 \<and>
   onDidCreate asciiLower ts_quiet_host app_ts change_s2 = (change_s2, SkipPackageManager) \<and>
   onDidChange asciiLower ts_quiet_host app_ts 1700005010000 change_s2 = (change_s2, SkipPackageManager) \<and>
   onDidChangeTextDocument asciiLower ts_quiet_host app_ts 1700005010000 change_s2 = (change_s2, SkipPackageManager) \<and>
   onDidSaveTextDocument asciiLower ts_quiet_host app_ts 1700005010000 change_s2 = (change_s2, SkipPackageManager)"
proof -
  have active: "isPackageManagerRunning change_s2"
    by code_simp
  from suppression_short_circuit[OF active, of asciiLower ts_quiet_host app_ts 1700005010000] active
  show ?thesis by simp
qed

section \<open>The order of the checks\<close>




lemma ladder_always_tries: "snd (openFile_ladder r u s) \<noteq> []"
  by (simp add: openFile_ladder_def Let_def split: option.splits)






lemma file_doc_found:
  "(\<exists>doc \<in> set docs. fsPath doc = p \<and> scheme doc = ''file'') \<longleftrightarrow>
   find (\<lambda>doc. fsPath doc = p \<and> scheme doc = ''file'') docs \<noteq> None"
  by (auto simp: find_None_iff)













section \<open>The path filters\<close>

text \<open>
  Claim C5, as stated, fails in its last part. The workspace-relative path
  \<open>app/mystorage/framework/views/list.ts\<close> has no segment that is an excluded directory,
  its base name matches no disallowed pattern and its extension is allowed, yet
  \<open>shouldAutoOpen\<close> denies it: the path contains the text \<open>storage/framework/views\<close>.
\<close>

theorem path_classifier_counterexample:
  "asRelativePath ts_quiet_host views_ts = ''app/mystorage/framework/views/list.ts'' \<and>
   inExcludedDir asciiLower (asRelativePath ts_quiet_host views_ts) = False \<and>
   matchesDisallowed (basename (fsPath views_ts)) = False \<and>
   asciiLower (extname (fsPath views_ts)) \<in> set ALLOWED_EXTENSIONS \<and>
   shouldAutoOpen asciiLower ts_quiet_host views_ts = False"
  by code_simp

lemma lock_files_disallowed:
  "fileName = ''yarn.lock'' \<or> fileName = ''package-lock.json'' \<Longrightarrow> matchesDisallowed fileName"
  by (auto simp: matchesDisallowed_def DISALLOWED_PATTERNS_def)

text \<open>
  Claim C5, amended. Whatever function \<open>toLowerCase\<close> is (so also for the one of the
  runtime, with its Unicode case tables), \<open>shouldAutoOpen\<close> denies a path exactly when its
  workspace-relative path contains \<open>storage/framework/views\<close> or starts with \<open>storage/\<close>
  (with either separator), or \<open>toLowerCase\<close> of a segment of the relative path is an
  excluded directory, or its base name matches a disallowed pattern, or \<open>toLowerCase\<close> of
  its extension is not in the allow-list; the final test for the two lock files never
  decides. Each condition denies on its own, so the first ones do so whatever the
  extension is. \<open>shouldOpenFile\<close> of Open Changed Files, which has no disallowed
  patterns, denies a path exactly when \<open>toLowerCase\<close> of a segment is an ignored directory
  or \<open>toLowerCase\<close> of the extension is not in its allow-list.
\<close>

theorem path_classifier_contract:
  "(shouldAutoOpen toLowerCase h u \<longleftrightarrow>
      \<not> (str_includes (asRelativePath h u) ''storage/framework/views'' \<or>
         str_includes (asRelativePath h u)
           (''storage'' @ [backslash] @ ''framework'' @ [backslash] @ ''views'') \<or>
         startsWith (asRelativePath h u) ''storage/'' \<or>
         startsWith (asRelativePath h u) (''storage'' @ [backslash]) \<or>
         (\<exists>part \<in> set (split_sep path_sep (asRelativePath h u)).
            toLowerCase part \<in> set EXCLUDED_DIRS) \<or>
         (\<exists>pattern \<in> set DISALLOWED_PATTERNS. pattern (basename (fsPath u))) \<or>
         toLowerCase (extname (fsPath u)) \<notin> set ALLOWED_EXTENSIONS)) \<and>
   (shouldOpenFile toLowerCase p \<longleftrightarrow>
      \<not> ((\<exists>segment \<in> set (split_sep path_sep p). toLowerCase segment \<in> set IGNORED_DIRS) \<or>
         toLowerCase (extname p) \<notin> set ALLOWED_EXTS))"
proof -
  have lock: "\<not> matchesDisallowed (basename (fsPath u)) \<Longrightarrow>
      \<not> (basename (fsPath u) = ''yarn.lock'' \<or> basename (fsPath u) = ''package-lock.json'')"
    using lock_files_disallowed by blast
  have ts: "shouldAutoOpen toLowerCase h u \<longleftrightarrow>
      \<not> (str_includes (asRelativePath h u) ''storage/framework/views'' \<or>
         str_includes (asRelativePath h u)
           (''storage'' @ [backslash] @ ''framework'' @ [backslash] @ ''views'') \<or>
         startsWith (asRelativePath h u) ''storage/'' \<or>
         startsWith (asRelativePath h u) (''storage'' @ [backslash]) \<or>
         inExcludedDir toLowerCase (asRelativePath h u) \<or>
         matchesDisallowed (basename (fsPath u)) \<or>
         toLowerCase (extname (fsPath u)) \<notin> set ALLOWED_EXTENSIONS)"
    using lock by (auto simp: shouldAutoOpen_def Let_def)
  have js: "shouldOpenFile toLowerCase p \<longleftrightarrow>
      \<not> (shouldIgnorePath toLowerCase p \<or> toLowerCase (extname p) \<notin> set ALLOWED_EXTS)"
    by (simp add: shouldOpenFile_def)
  show ?thesis
    unfolding ts js inExcludedDir_def matchesDisallowed_def shouldIgnorePath_def list_ex_iff
    by (intro conjI refl)
qed

theorem path_classifier_contract_witness:
  "shouldAutoOpen asciiLower ts_quiet_host app_ts \<and>
   \<not> shouldAutoOpen asciiLower ts_quiet_host vendor_js \<and>
   shouldOpenFile asciiLower burst_a \<and>
   asciiLower (extname (fsPath app_ts)) = ''.ts'' \<and>
   kelvinLower (extname main_kt) = ''.kt'' \<and>
   shouldOpenFile kelvinLower main_kt \<and>
   \<not> shouldOpenFile asciiLower main_kt"
proof -
  have allowed: "shouldAutoOpen asciiLower ts_quiet_host app_ts" "shouldOpenFile asciiLower burst_a"
    "asciiLower (extname (fsPath app_ts)) = ''.ts''"
    by code_simp+
  have vendor: "list_ex (\<lambda>part. asciiLower part \<in> set EXCLUDED_DIRS)
                  (split_sep path_sep (asRelativePath ts_quiet_host vendor_js))"
    by code_simp
  have kelvin: "kelvinLower (extname main_kt) = ''.kt''"
    "\<not> list_ex (\<lambda>segment. kelvinLower segment \<in> set IGNORED_DIRS) (split_sep path_sep main_kt)"
    "''.kt'' \<in> set ALLOWED_EXTS"
    "asciiLower (extname main_kt) \<notin> set ALLOWED_EXTS"
    by code_simp+
  from path_classifier_contract[of asciiLower ts_quiet_host vendor_js burst_a] vendor allowed
  have ascii: "\<not> shouldAutoOpen asciiLower ts_quiet_host vendor_js"
    by (auto simp: list_ex_iff)
  from path_classifier_contract[of kelvinLower ts_quiet_host vendor_js main_kt] kelvin
  have unicode: "shouldOpenFile kelvinLower main_kt"
    by (auto simp: list_ex_iff)
  from path_classifier_contract[of asciiLower ts_quiet_host vendor_js main_kt] kelvin
  have bytes: "\<not> shouldOpenFile asciiLower main_kt"
    by (auto simp: list_ex_iff)
  from allowed ascii unicode bytes kelvin show ?thesis by simp
qed

section \<open>Visibility\<close>

text \<open>
  Claim C8, as stated, fails in Cursor Auto-Open. The path of \<open>app_ts\<close> is shown in a
  visible editor through a document of scheme \<open>git\<close>, and no document of scheme \<open>file\<close>
  with that path is in memory. The file changes on disk; the change handler passes its
  checks and calls \<open>openFile\<close>, whose loop over the documents in memory finds none with
  scheme \<open>file\<close>, so that the visible editors are never looked at, and the \<open>vscode.open\<close>
  command is run.
\<close>

theorem visible_through_other_scheme:
  "isVisible ts_git_host (fsPath app_ts) \<and>
   snd (onDidChange asciiLower ts_git_host app_ts 1700005000000 ts_init) = CallOpenFile 200 \<and>
   openFile ts_git_host all_ok app_ts git_s1 = (git_s1, NotOpenYet) \<and>
   snd (openFile_ladder all_ok app_ts git_s1) = [ExecuteVscodeOpen app_ts]"
  by code_simp

text \<open>
  Claim C8, amended. Decision time is the moment a handler reads the visible editors.
  In Open Changed Files a path shown in a visible editor never makes \<open>handleFileChange\<close>
  suspend: the handler returns before the part that opens the file. In Cursor Auto-Open,
  when the path is that of a document in a visible editor, the internal-change and save
  handlers do not call \<open>openFile\<close>; and \<open>openFile\<close>, when a document of scheme \<open>file\<close> with
  that path is in memory, ends in one of its three results that make no editor call and
  never reaches its second part. When no such document is in memory, \<open>openFile\<close> does
  not look at the visible editors: for a file that exists and is not over 50 MB it goes on
  to its second part, which makes an editor call.
\<close>

theorem visible_never_opened:
  assumes "p \<in> set (openEditors jh)"
    and "isVisible h (fsPath u)"
  shows "snd (handleFileChange_arrive toLowerCase autoOpen jh p jnow js) \<noteq> Waiting \<and>
         (\<forall>delay. snd (onDidChangeTextDocument toLowerCase h u now s) \<noteq> CallOpenFile delay) \<and>
         (\<forall>delay. snd (onDidSaveTextDocument toLowerCase h u now s) \<noteq> CallOpenFile delay) \<and>
         ((\<exists>doc \<in> set (textDocuments h). fsPath doc = fsPath u \<and> scheme doc = ''file'') \<longrightarrow>
            snd (openFile h r u s) \<in> {FileMissing, FileTooLarge, AlreadyVisible} \<and>
            actions_of (snd (openFile h r u s)) = []) \<and>
         (\<not> (\<exists>doc \<in> set (textDocuments h). fsPath doc = fsPath u \<and> scheme doc = ''file'') \<and>
          access h (fsPath u) \<and>
          (\<forall>bytes. stat h (fsPath u) = Some bytes \<longrightarrow> bytes \<le> 50 * (1024 * 1024)) \<longrightarrow>
            openFile h r u s = (s, NotOpenYet) \<and> snd (openFile_ladder r' u s) \<noteq> [])"
proof -
  have js: "snd (handleFileChange_arrive toLowerCase autoOpen jh p jnow js) \<noteq> Waiting"
    using assms(1)
    by (auto simp: handleFileChange_arrive_def isFileOpenByUser_def list_ex_iff Let_def)
  have c: "snd (onDidChangeTextDocument toLowerCase h u now s) \<noteq> CallOpenFile delay" for delay
    using assms(2) by (simp add: onDidChangeTextDocument_def Let_def)
  have sv: "snd (onDidSaveTextDocument toLowerCase h u now s) \<noteq> CallOpenFile delay" for delay
    using assms(2) by (simp add: onDidSaveTextDocument_def Let_def)
  have inmem: "snd (openFile h r u s) \<in> {FileMissing, FileTooLarge, AlreadyVisible} \<and>
               actions_of (snd (openFile h r u s)) = []"
    if "\<exists>doc \<in> set (textDocuments h). fsPath doc = fsPath u \<and> scheme doc = ''file''"
  proof -
    from that obtain doc where
      "find (\<lambda>doc. fsPath doc = fsPath u \<and> scheme doc = ''file'') (textDocuments h) = Some doc"
      unfolding file_doc_found by blast
    with assms(2) have "snd (openFile h r u s) \<in> {FileMissing, FileTooLarge, AlreadyVisible}"
      by (simp add: openFile_def Let_def)
    then show ?thesis by auto
  qed
  have other: "openFile h r u s = (s, NotOpenYet) \<and> snd (openFile_ladder r' u s) \<noteq> []"
    if "\<not> (\<exists>doc \<in> set (textDocuments h). fsPath doc = fsPath u \<and> scheme doc = ''file'')"
      and "access h (fsPath u)"
      and "\<forall>bytes. stat h (fsPath u) = Some bytes \<longrightarrow> bytes \<le> 50 * (1024 * 1024)"
  proof -
    from that(1) have
      "find (\<lambda>doc. fsPath doc = fsPath u \<and> scheme doc = ''file'') (textDocuments h) = None"
      unfolding file_doc_found by simp
    moreover from that(3) have
      "\<not> (case stat h (fsPath u) of None \<Rightarrow> False | Some bytes \<Rightarrow> bytes > 50 * (1024 * 1024))"
      by (auto split: option.splits)
    ultimately have "openFile h r u s = (s, NotOpenYet)"
      using that(2) by (simp add: openFile_def Let_def)
    with ladder_always_tries[of r' u s] show ?thesis by simp
  qed
  from js c sv inmem other show ?thesis by blast
qed

theorem visible_never_opened_witness:
  "burst_a \<in> set (openEditors reading_host) \<and>
   isVisible ts_reading_host (fsPath app_ts) \<and>
   isVisible ts_git_host (fsPath app_ts) \<and>
   snd (handleFileChange_arrive asciiLower True reading_host burst_a 1700000000000 js_init) = OpenByUser \<and>
   snd (onDidSaveTextDocument asciiLower ts_reading_host app_ts 1700005000000 ts_init) \<noteq> CallOpenFile 100 \<and>
   snd (onDidSaveTextDocument asciiLower ts_git_host app_ts 1700005000000 ts_init) \<noteq> CallOpenFile 100 \<and>
   snd (openFile ts_reading_host all_ok app_ts ts_init) = AlreadyVisible \<and>
   actions_of (snd (openFile ts_reading_host all_ok app_ts ts_init)) = [] \<and>
   openFile ts_git_host all_ok app_ts ts_init = (ts_init, NotOpenYet) \<and>
   snd (openFile_ladder all_ok app_ts ts_init) \<noteq> []"
proof -
  have h1: "burst_a \<in> set (openEditors reading_host)"
    by (simp add: reading_host_def)
  have h2: "isVisible ts_reading_host (fsPath app_ts)" "isVisible ts_git_host (fsPath app_ts)"
    by code_simp+
  have inmem: "\<exists>doc \<in> set (textDocuments ts_reading_host). fsPath doc = fsPath app_ts \<and> scheme doc = ''file''"
    by (simp add: ts_reading_host_def app_ts_def)
  have other:
    "\<not> (\<exists>doc \<in> set (textDocuments ts_git_host). fsPath doc = fsPath app_ts \<and> scheme doc = ''file'')"
    "access ts_git_host (fsPath app_ts)"
    "\<forall>bytes. stat ts_git_host (fsPath app_ts) = Some bytes \<longrightarrow> bytes \<le> 50 * (1024 * 1024)"
    by (simp_all add: ts_git_host_def git_doc_def)
  have js: "snd (handleFileChange_arrive asciiLower True reading_host burst_a 1700000000000 js_init) = OpenByUser"
    by code_simp
  have ts: "snd (openFile ts_reading_host all_ok app_ts ts_init) = AlreadyVisible"
    by code_simp
  from visible_never_opened[OF h1 h2(1), where toLowerCase = asciiLower and autoOpen = True
        and jnow = 1700000000000 and js = js_init and r = all_ok and s = ts_init
        and now = 1700005000000 and r' = all_ok]
    visible_never_opened[OF h1 h2(2), where toLowerCase = asciiLower and autoOpen = True
        and jnow = 1700000000000 and js = js_init and r = all_ok and s = ts_init
        and now = 1700005000000 and r' = all_ok]
    h1 h2 inmem other js ts
  show ?thesis by simp
qed

subsection \<open>Marked as auto-opened\<close>

lemma autoOpened_step:
  assumes "e \<noteq> Deactivate"
  shows "autoOpenedFiles s \<subseteq> autoOpenedFiles (ts_step toLowerCase e s)"
  using assms
  by (cases e)
     (auto simp: onDidCreate_def onDidChange_def onDidOpenTextDocument_def
        onDidChangeTextDocument_def onDidSaveTextDocument_def onDidChangeActiveTextEditor_def
        onDidCloseTextDocument_def openFile_def openFile_ladder_def markOpened_def
        handlePackageManagerActivity_def clearTimeout_def setTimeout_def timerFired_def
        Let_def split: option.splits)

lemma autoOpened_run:
  "Deactivate \<notin> set evs \<Longrightarrow> autoOpenedFiles s \<subseteq> autoOpenedFiles (ts_run toLowerCase evs s)"
proof (induction evs arbitrary: s)
  case Nil
  then show ?case by simp
next
  case (Cons e evs)
  then have "autoOpenedFiles (ts_step toLowerCase e s) \<subseteq> autoOpenedFiles (ts_run toLowerCase evs (ts_step toLowerCase e s))"
    by simp
  moreover from Cons.prems have "autoOpenedFiles s \<subseteq> autoOpenedFiles (ts_step toLowerCase e s)"
    by (intro autoOpened_step) auto
  ultimately show ?case by auto
qed

lemma marked_is_skipped:
  assumes "fsPath u \<in> autoOpenedFiles s"
  shows "snd (onDidChangeTextDocument toLowerCase h u now s) \<noteq> CallOpenFile delay"
    and "snd (onDidSaveTextDocument toLowerCase h u now s) \<noteq> CallOpenFile delay"
  using assms
  by (simp_all add: onDidChangeTextDocument_def onDidSaveTextDocument_def Let_def)

text \<open>
  Claim C10. When \<open>openFile\<close> finds its target already visible it makes no editor call
  and adds the path to \<open>openedFiles\<close> and \<open>autoOpenedFiles\<close>. Whatever happens afterwards
  in the session, short of \<open>deactivate\<close>, the path stays in \<open>autoOpenedFiles\<close>, and an
  internal change or a save of a document with that path, arriving at any later point
  and on any host, does not go on to \<open>openFile\<close>. \<open>deactivate\<close> empties the set.
\<close>

theorem visible_marked_for_session:
  assumes "snd (openFile h r u s) = AlreadyVisible"
    and "Deactivate \<notin> set evs"
    and "fsPath u' = fsPath u"
  shows "actions_of (snd (openFile h r u s)) = [] \<and>
         fsPath u \<in> openedFiles (fst (openFile h r u s)) \<and>
         fsPath u \<in> autoOpenedFiles (fst (openFile h r u s)) \<and>
         fsPath u \<in> autoOpenedFiles (ts_run toLowerCase evs (fst (openFile h r u s))) \<and>
         snd (onDidChangeTextDocument toLowerCase h' u' now (ts_run toLowerCase evs (fst (openFile h r u s))))
           \<noteq> CallOpenFile delay \<and>
         snd (onDidSaveTextDocument toLowerCase h' u' now (ts_run toLowerCase evs (fst (openFile h r u s))))
           \<noteq> CallOpenFile delay \<and>
         autoOpenedFiles (deactivate (ts_run toLowerCase evs (fst (openFile h r u s)))) = {}"
proof -
  let ?s1 = "fst (openFile h r u s)"
  from assms(1) have marked: "fsPath u \<in> openedFiles ?s1 \<and> fsPath u \<in> autoOpenedFiles ?s1"
    by (auto simp: openFile_def markOpened_def Let_def split: if_splits option.splits)
  with autoOpened_run[OF assms(2), of ?s1 toLowerCase]
  have later: "fsPath u' \<in> autoOpenedFiles (ts_run toLowerCase evs ?s1)"
    using assms(3) by auto
  from marked later marked_is_skipped[OF later] assms(1,3) show ?thesis
    by (simp add: deactivate_def)
qed

theorem visible_marked_for_session_witness:
  "snd (openFile ts_reading_host all_ok app_ts ts_init) = AlreadyVisible \<and>
   fsPath app_ts \<in> autoOpenedFiles (fst (openFile ts_reading_host all_ok app_ts ts_init)) \<and>
   fsPath app_ts \<in>
     autoOpenedFiles (ts_run asciiLower later_session (fst (openFile ts_reading_host all_ok app_ts ts_init))) \<and>
   snd (onDidChangeTextDocument asciiLower ts_quiet_host app_ts 1700006000000
          (ts_run asciiLower later_session (fst (openFile ts_reading_host all_ok app_ts ts_init))))
     \<noteq> CallOpenFile 100 \<and>
   snd (onDidSaveTextDocument asciiLower ts_quiet_host app_ts 1700006000000
          (ts_run asciiLower later_session (fst (openFile ts_reading_host all_ok app_ts ts_init))))
     \<noteq> CallOpenFile 100"
proof -
  have seen: "snd (openFile ts_reading_host all_ok app_ts ts_init) = AlreadyVisible"
    by code_simp
  have session: "Deactivate \<notin> set later_session"
    by (simp add: later_session_def)
  from visible_marked_for_session[OF seen session refl, of asciiLower ts_quiet_host 1700006000000 100] seen
  show ?thesis by simp
qed

end
